theory Spec2Isabelle
  imports Main "HOL-Library.Multiset" "HOL-Library.Product_Lexorder"
begin

section \<open>The transaction pipeline of \<^verbatim>\<open>snoop_assignment/main.py\<close>\<close>

text \<open>
  The program reads a batch of transaction records, splits it with three data quality
  rules (\<^verbatim>\<open>data_quality_checks\<close>), converts the accepted rows to typed values and writes
  them to three PostgreSQL tables inside one database transaction (\<^verbatim>\<open>main\<close>).
\<close>

subsection \<open>Values and rows\<close>

text \<open>
  A parsed timestamp is year, month, day and second of the day; the lexicographic order of
  the tuple is the chronological order. An identifier is the number of a UUID
  (\<^verbatim>\<open>uuid.UUID(...).int\<close>). An amount is the number the text was parsed to.
\<close>

type_synonym timestamp = "nat \<times> nat \<times> nat \<times> nat"
type_synonym uuid = nat
type_synonym numeric = int

text \<open>
  One row of the data frame. The columns keep their names through the run while the
  values of five of them change type: \<^verbatim>\<open>main\<close> replaces the text read from the file by
  parsed values (lines 194 to 198). \<open>'u\<close> is the type of the two identifiers, \<open>'t\<close> of the
  two dates, \<open>'n\<close> of the amount. Every record has its ten fields, in the order of
  the \<^verbatim>\<open>INSERT\<close> of line 111, and every field has a value: missing fields and nulls are
  outside the model.
\<close>

record ('u, 't, 'n) row =
  customerId :: 'u
  customerName :: string
  transactionId :: 'u
  transactionDate :: 't
  sourceDate :: 't
  merchantId :: int
  categoryId :: int
  currency :: string
  amount :: 'n
  description :: string

type_synonym raw_row = "(string, string, string) row"
type_synonym typed_row = "(uuid, timestamp, numeric) row"

text \<open>
  A data frame is a list of rows, each with its index label. \<^verbatim>\<open>pd.DataFrame(records)\<close>
  numbers the rows from 0; a selection \<^verbatim>\<open>df[mask]\<close> keeps the labels of the rows it keeps.
  A column or a mask (a pandas Series) is the list of its values in row order.
\<close>

type_synonym 'r DataFrame = "(nat \<times> 'r) list"

definition DataFrame :: "'r list \<Rightarrow> 'r DataFrame" where
  "DataFrame records = zip [0 ..< length records] records"

definition column :: "('r \<Rightarrow> 'v) \<Rightarrow> 'r DataFrame \<Rightarrow> 'v list" where
  "column f df = map (\<lambda>(label, r). f r) df"

definition select :: "'r DataFrame \<Rightarrow> bool list \<Rightarrow> 'r DataFrame" where
  "select df flags = map fst (filter snd (zip df flags))"

definition series_and :: "bool list \<Rightarrow> bool list \<Rightarrow> bool list" where
  "series_and a b = map (\<lambda>(x, y). x \<and> y) (zip a b)"

definition series_or :: "bool list \<Rightarrow> bool list \<Rightarrow> bool list" where
  "series_or a b = map (\<lambda>(x, y). x \<or> y) (zip a b)"

definition series_not :: "bool list \<Rightarrow> bool list" where
  "series_not a = map Not a"

definition isin :: "'v list \<Rightarrow> 'v list \<Rightarrow> bool list" where
  "isin col allowed = map (\<lambda>v. v \<in> set allowed) col"

definition notna :: "'v option list \<Rightarrow> bool list" where
  "notna col = map (\<lambda>v. v \<noteq> None) col"

subsection \<open>The libraries' parsers\<close>

text \<open>
  The program parses text with four calls into pandas and the standard library. What
  text each of them accepts is decided outside this repository, so the model takes the
  four element parsers as a parameter; \<open>None\<close> is the element the parser cannot read.
  \<^item> \<open>strptime\<close>: \<^verbatim>\<open>pd.to_datetime(., format='%Y-%m-%d')\<close>, one element;
  \<^item> \<open>parse_datetime\<close>: \<^verbatim>\<open>pd.to_datetime(.)\<close> with no format, one element;
  \<^item> \<open>parse_numeric\<close>: \<^verbatim>\<open>pd.to_numeric(.)\<close>, one element;
  \<^item> \<open>UUID\<close>: \<^verbatim>\<open>uuid.UUID(.)\<close>.
\<close>

record library =
  strptime :: "string \<Rightarrow> timestamp option"
  parse_datetime :: "string \<Rightarrow> timestamp option"
  parse_numeric :: "string \<Rightarrow> numeric option"
  UUID :: "string \<Rightarrow> uuid option"

datatype exn = KeyError | ValueError | ProgrammingError | DatabaseError | InFailedSqlTransaction

text \<open>
  The \<^verbatim>\<open>errors\<close> argument of \<^verbatim>\<open>pd.to_datetime\<close>: with \<^verbatim>\<open>'raise'\<close> (the default) an
  element that does not parse raises; with \<^verbatim>\<open>'coerce'\<close> it becomes NaT, here \<open>None\<close>.
\<close>

datatype errors = errors_raise | errors_coerce

definition to_datetime ::
  "(string \<Rightarrow> timestamp option) \<Rightarrow> errors \<Rightarrow> string list \<Rightarrow> exn + timestamp option list" where
  "to_datetime parse errs col =
     (let parsed = map parse col in
      if errs = errors_raise \<and> None \<in> set parsed then Inl ValueError else Inr parsed)"

text \<open>
  \<^verbatim>\<open>df.groupby(keys)[col].transform('nunique')\<close>: for each row, the number of distinct
  values of \<open>col\<close> among the rows that have the same values in the \<open>keys\<close> columns.
\<close>

definition groupby_transform_nunique :: "('r \<Rightarrow> 'k) \<Rightarrow> ('r \<Rightarrow> 'v) \<Rightarrow> 'r DataFrame \<Rightarrow> nat list" where
  "groupby_transform_nunique keys col df =
     map (\<lambda>(label, r). length (remdups (column col (filter (\<lambda>(l, s). keys s = keys r) df)))) df"

subsection \<open>The validator\<close>

definition allowable_currencies :: "string list" where
  "allowable_currencies = [''EUR'', ''GBP'', ''USD'']"

definition condition1 :: "raw_row DataFrame \<Rightarrow> bool list" where
  "condition1 df = isin (column currency df) allowable_currencies"

definition condition3 :: "raw_row DataFrame \<Rightarrow> bool list" where
  "condition3 df =
     map (\<lambda>n. n = 1)
       (groupby_transform_nunique (\<lambda>r. (transactionId r, customerId r)) transactionId df)"

text \<open>
  The frame \<^verbatim>\<open>data_quality_checks\<close> receives is the one \<^verbatim>\<open>load_data_from_json\<close> built with
  \<^verbatim>\<open>pd.DataFrame(data['transactions'])\<close> (line 13). From an empty list of records pandas
  builds a frame with no columns, and the first column access, \<^verbatim>\<open>df['currency']\<close> of line 83,
  raises \<^verbatim>\<open>KeyError\<close>. (A selection that keeps no row still has its columns: the empty
  outputs of the function and the empty batches of the sinks raise nothing.)
\<close>

definition data_quality_checks ::
  "library \<Rightarrow> raw_row DataFrame \<Rightarrow> exn + (raw_row DataFrame \<times> raw_row DataFrame)" where
  "data_quality_checks lib df =
     (if df = [] then Inl KeyError
      else
        (case to_datetime (strptime lib) errors_coerce (column transactionDate df) of
           Inl e \<Rightarrow> Inl e
         | Inr parsed \<Rightarrow>
             (let condition2 = notna parsed;
                  final_condition =
                    series_and (series_and (condition1 df) condition2) (condition3 df);
                  filtered_df = select df final_condition;
                  failed_condition =
                    series_or (series_or (series_not (condition1 df)) (series_not condition2))
                      (series_not (condition3 df));
                  failed_df = select df failed_condition
              in Inr (filtered_df, failed_df))))"

subsection \<open>A library instance for evaluation\<close>

text \<open>
  The theorems below hold for every \<open>library\<close>. To run the program on concrete batches
  an instance is needed; this one reads only the plainest texts, on which the real parsers
  agree with it: a date written as four, two and two digits with hyphens (a day that
  exists, leap years included), a whole number, and a UUID in its canonical form of 32
  hexadecimal digits in five hyphenated groups.
\<close>

definition digit_of :: "char \<Rightarrow> nat option" where
  "digit_of c =
     (let n = (of_char c :: nat) in if 48 \<le> n \<and> n \<le> 57 then Some (n - 48) else None)"

definition hex_of :: "char \<Rightarrow> nat option" where
  "hex_of c =
     (let n = (of_char c :: nat) in
      if 48 \<le> n \<and> n \<le> 57 then Some (n - 48)
      else if 97 \<le> n \<and> n \<le> 102 then Some (n - 87)
      else if 65 \<le> n \<and> n \<le> 70 then Some (n - 55)
      else None)"

definition number_in :: "nat \<Rightarrow> (char \<Rightarrow> nat option) \<Rightarrow> string \<Rightarrow> nat option" where
  "number_in base digit s =
     (if s = [] then None
      else map_option (foldl (\<lambda>a d. base * a + d) 0) (those (map digit s)))"

definition leap_year :: "nat \<Rightarrow> bool" where
  "leap_year y = (y mod 4 = 0 \<and> (y mod 100 \<noteq> 0 \<or> y mod 400 = 0))"

definition days_in_month :: "nat \<Rightarrow> nat \<Rightarrow> nat" where
  "days_in_month y m =
     (if m = 2 then (if leap_year y then 29 else 28)
      else if m = 4 \<or> m = 6 \<or> m = 9 \<or> m = 11 then 30 else 31)"

definition plain_date :: "string \<Rightarrow> timestamp option" where
  "plain_date s =
     (if length s = 10 \<and> s ! 4 = CHR ''-'' \<and> s ! 7 = CHR ''-'' then
        (case (number_in 10 digit_of (take 4 s), number_in 10 digit_of (take 2 (drop 5 s)),
               number_in 10 digit_of (drop 8 s)) of
           (Some y, Some m, Some d) \<Rightarrow>
             if 1 \<le> m \<and> m \<le> 12 \<and> 1 \<le> d \<and> d \<le> days_in_month y m then Some (y, m, d, 0)
             else None
         | _ \<Rightarrow> None)
      else None)"

definition whole_number :: "string \<Rightarrow> numeric option" where
  "whole_number s =
     (case s of
        [] \<Rightarrow> None
      | c # cs \<Rightarrow>
          if c = CHR ''-'' then map_option (\<lambda>n. - int n) (number_in 10 digit_of cs)
          else map_option int (number_in 10 digit_of s))"

definition canonical_uuid :: "string \<Rightarrow> uuid option" where
  "canonical_uuid s =
     (if length s = 36 \<and> s ! 8 = CHR ''-'' \<and> s ! 13 = CHR ''-'' \<and> s ! 18 = CHR ''-''
         \<and> s ! 23 = CHR ''-''
      then number_in 16 hex_of (filter (\<lambda>c. c \<noteq> CHR ''-'') s)
      else None)"

definition plain_library :: library where
  "plain_library =
     \<lparr>strptime = plain_date, parse_datetime = plain_date, parse_numeric = whole_number,
      UUID = canonical_uuid\<rparr>"

subsection \<open>The three tables\<close>

text \<open>
  A table is the list of its rows. The primary keys of \<^verbatim>\<open>create_tables\<close> are not built
  into the representation: they are the invariants \<open>transactions_key\<close> and \<open>customer_key\<close>
  below, and the statements are what keeps them. A column holds the value submitted; the
  casts the server applies on assignment (a timestamp stored in a DATE column, a number in
  NUMERIC(10, 2)) are not modelled, and a value the server cannot store is a refused
  statement (see \<open>environment\<close>).
\<close>

record customer =
  c_customerId :: uuid
  c_customerName :: string
  c_transactionDate :: timestamp

record error_log =
  e_customerId :: string
  e_transactionId :: string
  e_description :: string

record tables =
  transactions_table :: "typed_row list"
  customer_table :: "customer list"
  error_log_table :: "error_log list"

definition transactions_key :: "typed_row list \<Rightarrow> bool" where
  "transactions_key tbl = distinct (map (\<lambda>r. (customerId r, transactionId r)) tbl)"

definition customer_key :: "customer list \<Rightarrow> bool" where
  "customer_key tbl = distinct (map c_customerId tbl)"

definition keys_hold :: "tables \<Rightarrow> bool" where
  "keys_hold db = (transactions_key (transactions_table db) \<and> customer_key (customer_table db))"

text \<open>The rows a query by key returns.\<close>

definition transactions_where :: "typed_row list \<Rightarrow> uuid \<times> uuid \<Rightarrow> typed_row list" where
  "transactions_where tbl k = filter (\<lambda>r. (customerId r, transactionId r) = k) tbl"

definition customer_where :: "customer list \<Rightarrow> uuid \<Rightarrow> customer option" where
  "customer_where tbl c = find (\<lambda>r. c_customerId r = c) tbl"

subsection \<open>The three statements\<close>

datatype statement =
    insert_transaction typed_row
  | insert_customer customer
  | insert_error_log error_log

text \<open>
  \<^verbatim>\<open>INSERT INTO transactions_table ... ON CONFLICT (customerId, transactionId) DO UPDATE SET\<close>
  the eight other columns from the row proposed for insertion (\<^verbatim>\<open>EXCLUDED\<close>).
\<close>

definition conflict :: "typed_row \<Rightarrow> typed_row \<Rightarrow> bool" where
  "conflict old excluded =
     (customerId old = customerId excluded \<and> transactionId old = transactionId excluded)"

definition upsert_transaction :: "typed_row list \<Rightarrow> typed_row \<Rightarrow> typed_row list" where
  "upsert_transaction tbl excluded =
     (if \<exists>old \<in> set tbl. conflict old excluded then
        map (\<lambda>old.
          if conflict old excluded then
            old\<lparr>customerName := customerName excluded,
                transactionDate := transactionDate excluded,
                sourceDate := sourceDate excluded,
                merchantId := merchantId excluded,
                categoryId := categoryId excluded,
                currency := currency excluded,
                amount := amount excluded,
                description := description excluded\<rparr>
          else old) tbl
      else tbl @ [excluded])"

text \<open>
  \<^verbatim>\<open>INSERT INTO customer_table ... ON CONFLICT (customerId) DO UPDATE SET customerName =\<close>
  \<^verbatim>\<open>EXCLUDED.customerName, transactionDate = GREATEST(EXCLUDED.transactionDate,\<close>
  \<^verbatim>\<open>customer_table.transactionDate)\<close>.
\<close>

definition upsert_customer :: "customer list \<Rightarrow> customer \<Rightarrow> customer list" where
  "upsert_customer tbl excluded =
     (if \<exists>old \<in> set tbl. c_customerId old = c_customerId excluded then
        map (\<lambda>old.
          if c_customerId old = c_customerId excluded then
            old\<lparr>c_customerName := c_customerName excluded,
                c_transactionDate := max (c_transactionDate excluded) (c_transactionDate old)\<rparr>
          else old) tbl
      else tbl @ [excluded])"

fun run_statement :: "tables \<Rightarrow> statement \<Rightarrow> tables" where
  "run_statement db (insert_transaction r) =
     db\<lparr>transactions_table := upsert_transaction (transactions_table db) r\<rparr>"
| "run_statement db (insert_customer c) =
     db\<lparr>customer_table := upsert_customer (customer_table db) c\<rparr>"
| "run_statement db (insert_error_log e) =
     db\<lparr>error_log_table := error_log_table db @ [e]\<rparr>"

subsection \<open>The driver and the server\<close>

text \<open>
  What the database session of one run looks like from the program: the tables as the
  open transaction sees them, whether the server has put the transaction in its failed
  state (after an error, PostgreSQL refuses every further statement of the transaction
  and ends it with a rollback), and the lines printed so far.
\<close>

record session =
  pending :: tables
  failed :: bool
  stdout :: "string list"

text \<open>
  Which statements fail is not decided by the program. The environment of a run says it:
  \<^item> \<open>create_refused\<close>: the server refuses a \<^verbatim>\<open>CREATE TABLE\<close> of \<^verbatim>\<open>create_tables\<close>;
  \<^item> \<open>unadaptable\<close>: the driver cannot build the statement from its parameters
    (\<^verbatim>\<open>cursor.mogrify\<close> raises, as for a value of a type it has no adapter for, or for
    more values than the statement has placeholders); nothing is sent to the server;
  \<^item> \<open>refused\<close>: the server raises an error for the statement (a value too long for its
    column, a number out of range, a malformed identifier).
\<close>

record environment =
  create_refused :: bool
  unadaptable :: "statement \<Rightarrow> bool"
  refused :: "statement \<Rightarrow> bool"

text \<open>\<^verbatim>\<open>cursor.execute\<close> of a sequence of statements sent as one query.\<close>

fun execute :: "environment \<Rightarrow> session \<Rightarrow> statement list \<Rightarrow> exn option \<times> session" where
  "execute env s [] = (None, s)"
| "execute env s (q # qs) =
     (if failed s then (Some InFailedSqlTransaction, s)
      else if refused env q then (Some DatabaseError, s\<lparr>failed := True\<rparr>)
      else execute env (s\<lparr>pending := run_statement (pending s) q\<rparr>) qs)"

text \<open>
  \<^verbatim>\<open>psycopg2.extras.execute_batch\<close> with its default \<^verbatim>\<open>page_size\<close>: the statements are
  built and sent a page at a time, so a parameter the driver cannot adapt raises before
  any statement of its page is sent.
\<close>

definition page_size :: nat where
  "page_size = 100"

function paginate :: "'a list \<Rightarrow> 'a list list" where
  "paginate xs = (if xs = [] then [] else take page_size xs # paginate (drop page_size xs))"
  by pat_completeness auto
termination
  by (relation "measure length") (auto simp: page_size_def)

declare paginate.simps [simp del]

fun execute_pages :: "environment \<Rightarrow> session \<Rightarrow> statement list list \<Rightarrow> exn option \<times> session" where
  "execute_pages env s [] = (None, s)"
| "execute_pages env s (page # pages) =
     (if \<exists>q \<in> set page. unadaptable env q then (Some ProgrammingError, s)
      else (case execute env s page of
              (None, s') \<Rightarrow> execute_pages env s' pages
            | (Some error, s') \<Rightarrow> (Some error, s')))"

definition execute_batch :: "environment \<Rightarrow> session \<Rightarrow> statement list \<Rightarrow> exn option \<times> session" where
  "execute_batch env s argslist = execute_pages env s (paginate argslist)"

text \<open>
  A status line. The program prints the exception after the text of an error line; the
  model keeps the text.
\<close>

definition print :: "string \<Rightarrow> session \<Rightarrow> session" where
  "print line s = s\<lparr>stdout := stdout s @ [line]\<rparr>"

subsection \<open>The loader\<close>

text \<open>
  The four functions that use the cursor have the same shape: the statements inside
  \<^verbatim>\<open>try\<close>, one line printed on success, and \<^verbatim>\<open>except (Exception, psycopg2.DatabaseError)\<close>
  printing another. No exception leaves them; what they return is the session.
\<close>

definition create_tables :: "environment \<Rightarrow> session \<Rightarrow> session" where
  "create_tables env s =
     (if failed s \<or> create_refused env then print ''Error creating tables:'' (s\<lparr>failed := True\<rparr>)
      else print ''Tables created successfully!'' s)"

definition itertuples :: "'r DataFrame \<Rightarrow> 'r list" where
  "itertuples df = map snd df"

definition insert_into_transactions_table :: "environment \<Rightarrow> session \<Rightarrow> typed_row DataFrame \<Rightarrow> session" where
  "insert_into_transactions_table env s filtered_df =
     (case execute_batch env s (map insert_transaction (itertuples filtered_df)) of
        (None, s') \<Rightarrow> print ''Transactions inserted or updated successfully!'' s'
      | (Some error, s') \<Rightarrow> print ''Error inserting or updating transactions:'' s')"

definition customer_columns :: "typed_row \<Rightarrow> customer" where
  "customer_columns r =
     \<lparr>c_customerId = customerId r, c_customerName = customerName r,
      c_transactionDate = transactionDate r\<rparr>"

definition insert_into_customer_table :: "environment \<Rightarrow> session \<Rightarrow> typed_row DataFrame \<Rightarrow> session" where
  "insert_into_customer_table env s filtered_df =
     (case execute_batch env s
             (map insert_customer (map customer_columns (itertuples filtered_df))) of
        (None, s') \<Rightarrow> print ''Customer records inserted or updated successfully!'' s'
      | (Some error, s') \<Rightarrow> print ''Error inserting or updating customer records:'' s')"

definition error_log_columns :: "raw_row \<Rightarrow> error_log" where
  "error_log_columns r =
     \<lparr>e_customerId = customerId r, e_transactionId = transactionId r,
      e_description = description r\<rparr>"

definition insert_into_error_log_table :: "environment \<Rightarrow> session \<Rightarrow> raw_row DataFrame \<Rightarrow> session" where
  "insert_into_error_log_table env s failed_df =
     (case execute_batch env s
             (map insert_error_log (map error_log_columns (itertuples failed_df))) of
        (None, s') \<Rightarrow> print ''Error log records inserted successfully!'' s'
      | (Some error, s') \<Rightarrow> print ''Error inserting error log records:'' s')"

subsection \<open>The run\<close>

text \<open>
  Lines 194 to 198 of \<^verbatim>\<open>main\<close> convert five columns of the accepted rows, one column
  after the other. None of the calls asks for coercion, so an element that does not parse
  raises, and the exception leaves \<^verbatim>\<open>main\<close>.
\<close>

definition convert_column :: "('a \<Rightarrow> 'b option) \<Rightarrow> 'a list \<Rightarrow> exn + 'b list" where
  "convert_column parse col =
     (case those (map parse col) of None \<Rightarrow> Inl ValueError | Some values \<Rightarrow> Inr values)"

definition typed :: "raw_row \<Rightarrow> timestamp \<Rightarrow> numeric \<Rightarrow> uuid \<Rightarrow> uuid \<Rightarrow> timestamp \<Rightarrow> typed_row" where
  "typed r source_date amount_value customer_id transaction_id transaction_date =
     \<lparr>customerId = customer_id, customerName = customerName r,
      transactionId = transaction_id, transactionDate = transaction_date,
      sourceDate = source_date, merchantId = merchantId r, categoryId = categoryId r,
      currency = currency r, amount = amount_value, description = description r\<rparr>"

definition convert_types :: "library \<Rightarrow> raw_row DataFrame \<Rightarrow> exn + typed_row DataFrame" where
  "convert_types lib filtered_df =
     (case convert_column (parse_datetime lib) (column sourceDate filtered_df) of
        Inl e \<Rightarrow> Inl e
      | Inr source_dates \<Rightarrow>
     (case convert_column (parse_numeric lib) (column amount filtered_df) of
        Inl e \<Rightarrow> Inl e
      | Inr amounts \<Rightarrow>
     (case convert_column (UUID lib) (column customerId filtered_df) of
        Inl e \<Rightarrow> Inl e
      | Inr customer_ids \<Rightarrow>
     (case convert_column (UUID lib) (column transactionId filtered_df) of
        Inl e \<Rightarrow> Inl e
      | Inr transaction_ids \<Rightarrow>
     (case convert_column (parse_datetime lib) (column transactionDate filtered_df) of
        Inl e \<Rightarrow> Inl e
      | Inr transaction_dates \<Rightarrow>
          Inr (map (\<lambda>((label, r), sd, am, cid, tid, td). (label, typed r sd am cid tid td))
                (zip filtered_df (zip source_dates (zip amounts
                  (zip customer_ids (zip transaction_ids transaction_dates)))))))))))"

text \<open>
  \<^verbatim>\<open>conn.commit()\<close>: the server keeps the writes of the transaction, unless the
  transaction is in its failed state, which a commit ends with a rollback.
\<close>

definition commit :: "tables \<Rightarrow> session \<Rightarrow> tables" where
  "commit db s = (if failed s then db else pending s)"

text \<open>
  What a run leaves behind: the exception that left \<^verbatim>\<open>main\<close> (if one did), the lines
  printed, and the committed tables.
\<close>

record run_result =
  raised :: "exn option"
  printed :: "string list"
  store :: tables

text \<open>\<^verbatim>\<open>conn.cursor()\<close> on a new connection to the committed tables \<open>db\<close>.\<close>

definition cursor :: "tables \<Rightarrow> session" where
  "cursor db = \<lparr>pending = db, failed = False, stdout = []\<rparr>"

text \<open>
  \<^verbatim>\<open>main\<close> from the point where the batch is loaded and the connection is open
  (line 186), on the committed tables \<open>db\<close>. An exception that leaves the \<^verbatim>\<open>with\<close> block
  (the \<^verbatim>\<open>KeyError\<close> of the validator on a batch with no records, the \<^verbatim>\<open>ValueError\<close> of a
  conversion) skips the commit; \<^verbatim>\<open>conn.close()\<close> then discards the open transaction.
\<close>

definition main :: "library \<Rightarrow> environment \<Rightarrow> raw_row DataFrame \<Rightarrow> tables \<Rightarrow> run_result" where
  "main lib env df db =
     (let s1 = create_tables env (cursor db)
      in case data_quality_checks lib df of
           Inl e \<Rightarrow> \<lparr>raised = Some e, printed = stdout s1, store = db\<rparr>
         | Inr (filtered_df, failed_df) \<Rightarrow>
             (case convert_types lib filtered_df of
                Inl e \<Rightarrow> \<lparr>raised = Some e, printed = stdout s1, store = db\<rparr>
              | Inr typed_df \<Rightarrow>
                  (let s2 = insert_into_transactions_table env s1 typed_df;
                       s3 = insert_into_customer_table env s2 typed_df;
                       s4 = insert_into_error_log_table env s3 failed_df
                   in \<lparr>raised = None, printed = stdout s4, store = commit db s4\<rparr>)))"

text \<open>A sequence of runs, each with its own environment and batch.\<close>

definition runs :: "library \<Rightarrow> (environment \<times> raw_row DataFrame) list \<Rightarrow> tables \<Rightarrow> tables" where
  "runs lib batches db = foldl (\<lambda>db (env, df). store (main lib env df db)) db batches"

text \<open>The statements the three sinks build in a run, in the order they are sent.\<close>

definition sink_statements :: "typed_row DataFrame \<Rightarrow> raw_row DataFrame \<Rightarrow> statement list" where
  "sink_statements typed_df failed_df =
     map insert_transaction (itertuples typed_df) @
     map insert_customer (map customer_columns (itertuples typed_df)) @
     map insert_error_log (map error_log_columns (itertuples failed_df))"

subsection \<open>Row-wise reading of the three rules\<close>

definition passes1 :: "raw_row \<Rightarrow> bool" where
  "passes1 r = (currency r \<in> set allowable_currencies)"

definition passes2 :: "library \<Rightarrow> raw_row \<Rightarrow> bool" where
  "passes2 lib r = (strptime lib (transactionDate r) \<noteq> None)"

definition passes3 :: "raw_row DataFrame \<Rightarrow> raw_row \<Rightarrow> bool" where
  "passes3 df r =
     (length (remdups (column transactionId
        (filter (\<lambda>(l, s). (transactionId s, customerId s) = (transactionId r, customerId r)) df))) = 1)"

subsection \<open>Row-wise reading of the customer statement\<close>

text \<open>
  What one \<^verbatim>\<open>INSERT INTO customer_table ... ON CONFLICT\<close> does to the row of customer
  \<open>c\<close> (\<open>None\<close> when the table has no such row), and the order of two tables in which no
  customer's date is lower in the second.
\<close>

definition merge_customer :: "uuid \<Rightarrow> customer \<Rightarrow> customer option \<Rightarrow> customer option" where
  "merge_customer c excluded found =
     (if c_customerId excluded = c then
        Some (case found of
                None \<Rightarrow> excluded
              | Some old \<Rightarrow>
                  old\<lparr>c_customerName := c_customerName excluded,
                      c_transactionDate := max (c_transactionDate excluded) (c_transactionDate old)\<rparr>)
      else found)"

definition never_reduced :: "customer list \<Rightarrow> customer list \<Rightarrow> bool" where
  "never_reduced tbl tbl' =
     (\<forall>c old. customer_where tbl c = Some old \<longrightarrow>
        (\<exists>new. customer_where tbl' c = Some new \<and> c_transactionDate old \<le> c_transactionDate new))"

subsection \<open>Concrete batches and environments\<close>

definition no_faults :: environment where
  "no_faults = \<lparr>create_refused = False, unadaptable = (\<lambda>q. False), refused = (\<lambda>q. False)\<rparr>"

definition empty_tables :: tables where
  "empty_tables = \<lparr>transactions_table = [], customer_table = [], error_log_table = []\<rparr>"

definition coffee :: raw_row where
  "coffee =
     \<lparr>customerId = ''00000000-0000-0000-0000-000000000007'', customerName = ''Ann'',
      transactionId = ''00000000-0000-0000-0000-000000000005'',
      transactionDate = ''2023-11-21'', sourceDate = ''2023-11-22'', merchantId = 31,
      categoryId = 4, currency = ''EUR'', amount = ''100'', description = ''coffee''\<rparr>"

definition tea :: raw_row where
  "tea =
     \<lparr>customerId = ''00000000-0000-0000-0000-000000000007'', customerName = ''Ann'',
      transactionId = ''00000000-0000-0000-0000-000000000006'',
      transactionDate = ''2023-12-05'', sourceDate = ''2023-12-06'', merchantId = 31,
      categoryId = 4, currency = ''CAD'', amount = ''3'', description = ''tea''\<rparr>"

definition rent :: raw_row where
  "rent =
     \<lparr>customerId = ''00000000-0000-0000-0000-000000000008'', customerName = ''Bob'',
      transactionId = ''00000000-0000-0000-0000-000000000009'',
      transactionDate = ''21/11/2023'', sourceDate = ''2023-11-22'', merchantId = 12,
      categoryId = 1, currency = ''GBP'', amount = ''900'', description = ''rent''\<rparr>"

text \<open>Typed rows, as the sinks receive them.\<close>

definition coffee_row :: typed_row where
  "coffee_row =
     \<lparr>customerId = 7, customerName = ''Ann'', transactionId = 5,
      transactionDate = (2023, 11, 21, 0), sourceDate = (2023, 11, 22, 0), merchantId = 31,
      categoryId = 4, currency = ''EUR'', amount = 100, description = ''coffee''\<rparr>"

definition lunch_row :: typed_row where
  "lunch_row =
     \<lparr>customerId = 7, customerName = ''Ann Lee'', transactionId = 6,
      transactionDate = (2024, 1, 12, 0), sourceDate = (2024, 1, 13, 0), merchantId = 8,
      categoryId = 4, currency = ''GBP'', amount = 15, description = ''lunch''\<rparr>"

definition coffee_loaded :: tables where
  "coffee_loaded =
     \<lparr>transactions_table = [coffee_row],
      customer_table =
        [\<lparr>c_customerId = 7, c_customerName = ''Ann'', c_transactionDate = (2023, 11, 21, 0)\<rparr>],
      error_log_table = []\<rparr>"

definition new_year :: raw_row where
  "new_year =
     \<lparr>customerId = ''00000000-0000-0000-0000-000000000007'', customerName = ''Ann'',
      transactionId = ''00000000-0000-0000-0000-00000000000a'',
      transactionDate = ''2024-01-01'', sourceDate = ''2024-01-02'', merchantId = 31,
      categoryId = 4, currency = ''EUR'', amount = ''20'', description = ''brunch''\<rparr>"

definition summer :: raw_row where
  "summer =
     \<lparr>customerId = ''00000000-0000-0000-0000-000000000007'', customerName = ''Ann'',
      transactionId = ''00000000-0000-0000-0000-00000000000b'',
      transactionDate = ''2023-06-01'', sourceDate = ''2024-01-03'', merchantId = 31,
      categoryId = 4, currency = ''EUR'', amount = ''5'', description = ''ice cream''\<rparr>"

text \<open>
  Three environments in which something fails: the server refuses a \<^verbatim>\<open>CREATE TABLE\<close>; the
  driver cannot build the statements for \<open>transactions_table\<close> (a parameter it has no
  adapter for, or a row with more values than the statement has placeholders); the server
  refuses the statements for \<open>customer_table\<close>.
\<close>

definition schema_refused :: environment where
  "schema_refused = \<lparr>create_refused = True, unadaptable = (\<lambda>q. False), refused = (\<lambda>q. False)\<rparr>"

definition transactions_unadaptable :: environment where
  "transactions_unadaptable =
     \<lparr>create_refused = False,
      unadaptable = (\<lambda>q. case q of insert_transaction r \<Rightarrow> True | _ \<Rightarrow> False),
      refused = (\<lambda>q. False)\<rparr>"

definition customer_refused :: environment where
  "customer_refused =
     \<lparr>create_refused = False, unadaptable = (\<lambda>q. False),
      refused = (\<lambda>q. case q of insert_customer c \<Rightarrow> True | _ \<Rightarrow> False)\<rparr>"

section \<open>Properties of the validator\<close>

lemma select_map: "select df (map f df) = filter f df"
  by (induction df) (simp_all add: select_def)

lemma series_and_map: "series_and (map f xs) (map g xs) = map (\<lambda>x. f x \<and> g x) xs"
  by (induction xs) (simp_all add: series_and_def)

lemma series_or_map: "series_or (map f xs) (map g xs) = map (\<lambda>x. f x \<or> g x) xs"
  by (induction xs) (simp_all add: series_or_def)

lemma series_not_map: "series_not (map f xs) = map (\<lambda>x. \<not> f x) xs"
  by (simp add: series_not_def)

lemma condition1_map: "condition1 df = map (\<lambda>(l, r). passes1 r) df"
  by (simp add: condition1_def isin_def column_def passes1_def case_prod_unfold)

lemma condition2_map:
  "notna (map (strptime lib) (column transactionDate df)) = map (\<lambda>(l, r). passes2 lib r) df"
  by (simp add: notna_def column_def passes2_def case_prod_unfold)

lemma condition3_map: "condition3 df = map (\<lambda>(l, r). passes3 df r) df"
  by (simp add: condition3_def groupby_transform_nunique_def passes3_def case_prod_unfold)

text \<open>
  On a frame with no records the function raises; on any other frame its two selections
  are two filters of the frame by complementary predicates, and the coercing date parse
  never raises.
\<close>

lemma data_quality_checks_empty: "data_quality_checks lib [] = Inl KeyError"
  by (simp add: data_quality_checks_def)

lemma data_quality_checks_filter:
  assumes "df \<noteq> []"
  shows "data_quality_checks lib df =
     Inr (filter (\<lambda>(l, r). passes1 r \<and> passes2 lib r \<and> passes3 df r) df,
          filter (\<lambda>(l, r). \<not> (passes1 r \<and> passes2 lib r \<and> passes3 df r)) df)"
proof -
  have final:
    "series_and (series_and (condition1 df) (notna (map (strptime lib) (column transactionDate df))))
       (condition3 df) = map (\<lambda>(l, r). passes1 r \<and> passes2 lib r \<and> passes3 df r) df"
    by (simp add: condition1_map condition2_map condition3_map series_and_map case_prod_unfold)
  have failed:
    "series_or (series_or (series_not (condition1 df))
        (series_not (notna (map (strptime lib) (column transactionDate df)))))
       (series_not (condition3 df)) = map (\<lambda>(l, r). \<not> (passes1 r \<and> passes2 lib r \<and> passes3 df r)) df"
    by (auto simp: condition1_map condition2_map condition3_map series_or_map series_not_map
        case_prod_unfold)
  show ?thesis
    using assms unfolding data_quality_checks_def to_datetime_def Let_def
    by (simp add: final failed select_map)
qed

lemma remdups_constant:
  assumes "xs \<noteq> []" and "\<forall>x \<in> set xs. x = v"
  shows "remdups xs = [v]"
  using assms
proof (induction xs)
  case Nil
  then show ?case by simp
next
  case (Cons x xs)
  show ?case
  proof (cases "xs = []")
    case True
    with Cons.prems show ?thesis by simp
  next
    case False
    with Cons have "remdups xs = [v]" by simp
    moreover from Cons.prems have "x = v" by simp
    moreover from False Cons.prems have "v \<in> set xs" by (cases xs) auto
    ultimately show ?thesis by simp
  qed
qed

text \<open>
  Within a group of rows that share \<open>(transactionId, customerId)\<close> the column
  \<open>transactionId\<close> has one value, whatever the size of the group: the third mask is true
  on every row.
\<close>

lemma passes3_always:
  assumes "(l, r) \<in> set df"
  shows "passes3 df r"
proof -
  let ?group = "filter (\<lambda>(l, s). (transactionId s, customerId s) = (transactionId r, customerId r)) df"
  from assms have mem: "(l, r) \<in> set ?group" by simp
  have "?group \<noteq> []"
    using mem by (metis empty_iff list.set(1))
  then have ne: "column transactionId ?group \<noteq> []"
    by (simp add: column_def)
  have "\<forall>x \<in> set (column transactionId ?group). x = transactionId r"
    by (auto simp: column_def)
  with ne have "remdups (column transactionId ?group) = [transactionId r]"
    by (rule remdups_constant)
  then show ?thesis by (simp add: passes3_def)
qed

text \<open>
  So the third rule rejects nothing: for every batch that has records the outputs are
  those of the currency rule and the date rule alone.
\<close>

lemma data_quality_checks_two_rules:
  assumes "df \<noteq> []"
  shows "data_quality_checks lib df =
     Inr (filter (\<lambda>(l, r). passes1 r \<and> passes2 lib r) df,
          filter (\<lambda>(l, r). \<not> (passes1 r \<and> passes2 lib r)) df)"
proof -
  have "filter (\<lambda>(l, r). passes1 r \<and> passes2 lib r \<and> passes3 df r) df =
      filter (\<lambda>(l, r). passes1 r \<and> passes2 lib r) df"
    by (rule filter_cong) (auto simp: passes3_always)
  moreover have "filter (\<lambda>(l, r). \<not> (passes1 r \<and> passes2 lib r \<and> passes3 df r)) df =
      filter (\<lambda>(l, r). \<not> (passes1 r \<and> passes2 lib r)) df"
    by (rule filter_cong) (auto simp: passes3_always)
  ultimately show ?thesis
    by (simp only: data_quality_checks_filter [OF assms])
qed

lemmas plain_library_simps =
  plain_library_def plain_date_def whole_number_def canonical_uuid_def number_in_def
  digit_of_def hex_of_def days_in_month_def leap_year_def

text \<open>
  C1. The duplicate rule: two records that share \<open>(transactionId, customerId)\<close> should both
  be rejected. On the batch of \<open>coffee\<close> and a second record with the same two identifiers
  and another amount, \<^verbatim>\<open>data_quality_checks\<close> accepts both and rejects none.
\<close>

theorem duplicates_are_accepted:
  "data_quality_checks plain_library (DataFrame [coffee, coffee\<lparr>amount := ''250''\<rparr>]) =
     Inr ([(0, coffee), (1, coffee\<lparr>amount := ''250''\<rparr>)], [])"
  by code_simp

lemma mset_filter_partition:
  "mset (filter P xs) + mset (filter (\<lambda>x. \<not> P x) xs) = mset xs"
  by (induction xs) simp_all

lemma distinct_labels_filter:
  "distinct (map fst xs) \<Longrightarrow>
     set (map fst (filter P xs)) \<inter> set (map fst (filter (\<lambda>x. \<not> P x) xs)) = {}"
proof (induction xs)
  case Nil
  then show ?case by simp
next
  case (Cons x xs)
  then have "fst x \<notin> fst ` set xs"
    and "fst ` set (filter P xs) \<inter> fst ` set (filter (\<lambda>x. \<not> P x) xs) = {}"
    by simp_all
  moreover have "fst ` set (filter P xs) \<subseteq> fst ` set xs"
    and "fst ` set (filter (\<lambda>x. \<not> P x) xs) \<subseteq> fst ` set xs"
    by auto
  ultimately show ?case
    by (cases "P x") auto
qed

text \<open>
  C4. Partition totality and disjointness: the claim is that \<^verbatim>\<open>data_quality_checks\<close>
  returns two outputs that split the batch, for every batch. On the batch with no records
  it returns nothing: the frame has no \<open>currency\<close> column and line 83 raises
  \<^verbatim>\<open>KeyError\<close>.
\<close>

theorem empty_batch_raises:
  "data_quality_checks plain_library (DataFrame []) = Inl KeyError"
  by (simp add: DataFrame_def data_quality_checks_def)

text \<open>
  C4, as the code has it: for every batch that has at least one record (a data frame whose
  rows have distinct index labels, as \<^verbatim>\<open>pd.DataFrame\<close> builds it), the two outputs of
  \<^verbatim>\<open>data_quality_checks\<close> have as many rows together as the batch, every row of the batch
  is in one of them, and no index label (the identity of a row) is in both.
\<close>

theorem partition_total_disjoint:
  assumes "df \<noteq> []" and "distinct (map fst df)"
  shows "\<exists>accepted rejected.
           data_quality_checks lib df = Inr (accepted, rejected) \<and>
           length accepted + length rejected = length df \<and>
           mset accepted + mset rejected = mset df \<and>
           set accepted \<union> set rejected = set df \<and>
           set (map fst accepted) \<inter> set (map fst rejected) = {}"
proof -
  let ?ok = "\<lambda>x. passes1 (snd x) \<and> passes2 lib (snd x) \<and> passes3 df (snd x)"
  have result: "data_quality_checks lib df = Inr (filter ?ok df, filter (\<lambda>x. \<not> ?ok x) df)"
    using assms(1) by (simp add: data_quality_checks_filter case_prod_unfold)
  have len: "length (filter ?ok df) + length (filter (\<lambda>x. \<not> ?ok x) df) = length df"
    by (rule sum_length_filter_compl)
  have ms: "mset (filter ?ok df) + mset (filter (\<lambda>x. \<not> ?ok x) df) = mset df"
    by (rule mset_filter_partition)
  have un: "set (filter ?ok df) \<union> set (filter (\<lambda>x. \<not> ?ok x) df) = set df"
    by auto
  have disj: "set (map fst (filter ?ok df)) \<inter> set (map fst (filter (\<lambda>x. \<not> ?ok x) df)) = {}"
    using assms(2) by (rule distinct_labels_filter)
  show ?thesis
    using result len ms un disj by (intro exI conjI)
qed

theorem partition_total_disjoint_witness:
  "DataFrame [coffee, tea, rent] \<noteq> [] \<and>
   distinct (map fst (DataFrame [coffee, tea, rent])) \<and>
   (\<exists>accepted rejected.
      data_quality_checks plain_library (DataFrame [coffee, tea, rent]) = Inr (accepted, rejected) \<and>
      length accepted + length rejected = 3 \<and>
      set (map fst accepted) \<inter> set (map fst rejected) = {})"
proof -
  have e: "DataFrame [coffee, tea, rent] \<noteq> []"
    by (simp add: DataFrame_def)
  have d: "distinct (map fst (DataFrame [coffee, tea, rent]))"
    by (simp add: DataFrame_def)
  have n: "length (DataFrame [coffee, tea, rent]) = 3"
    by (simp add: DataFrame_def)
  from partition_total_disjoint [OF e d, of plain_library]
  obtain accepted rejected where
    "data_quality_checks plain_library (DataFrame [coffee, tea, rent]) = Inr (accepted, rejected)"
    and "length accepted + length rejected = length (DataFrame [coffee, tea, rent])"
    and "set (map fst accepted) \<inter> set (map fst rejected) = {}"
    by blast
  with e d n show ?thesis
    by auto
qed

text \<open>
  C6. Currency allow-list: a record whose currency is not exactly one of EUR, GBP, USD is
  in the rejected output and not in the accepted one, whatever its other fields are.
\<close>

theorem currency_rule:
  assumes "(l, r) \<in> set df" and "currency r \<notin> {''EUR'', ''GBP'', ''USD''}"
  shows "\<exists>accepted rejected.
           data_quality_checks lib df = Inr (accepted, rejected) \<and>
           (l, r) \<in> set rejected \<and> (l, r) \<notin> set accepted"
proof -
  from assms(1) have "df \<noteq> []"
    by auto
  moreover from assms(2) have "\<not> passes1 r"
    by (simp add: passes1_def allowable_currencies_def)
  ultimately show ?thesis
    using assms(1) by (simp add: data_quality_checks_filter)
qed

theorem currency_rule_witness:
  "(1, tea) \<in> set (DataFrame [coffee, tea, rent]) \<and>
   currency tea \<notin> {''EUR'', ''GBP'', ''USD''} \<and>
   (\<exists>accepted rejected.
      data_quality_checks plain_library (DataFrame [coffee, tea, rent]) = Inr (accepted, rejected) \<and>
      (1, tea) \<in> set rejected \<and> (1, tea) \<notin> set accepted)"
proof -
  have m: "(1, tea) \<in> set (DataFrame [coffee, tea, rent])"
    by (simp add: DataFrame_def)
  have c: "currency tea \<notin> {''EUR'', ''GBP'', ''USD''}"
    by (simp add: tea_def)
  from currency_rule [OF m c, of plain_library] m c show ?thesis
    by blast
qed

text \<open>
  C7. The date rule is a total predicate: for every batch that holds a record whose
  \<open>transactionDate\<close> the date parser cannot read, \<^verbatim>\<open>data_quality_checks\<close> returns its two
  outputs (the value raises nothing: it only makes the rule false), and the record is in
  the rejected output and not in the accepted one.
\<close>

theorem date_rule_total:
  assumes "(l, r) \<in> set df" and "strptime lib (transactionDate r) = None"
  shows "\<exists>accepted rejected.
           data_quality_checks lib df = Inr (accepted, rejected) \<and>
           (l, r) \<in> set rejected \<and> (l, r) \<notin> set accepted"
proof -
  from assms(1) have "df \<noteq> []"
    by auto
  moreover from assms(2) have "\<not> passes2 lib r"
    by (simp add: passes2_def)
  ultimately show ?thesis
    using assms(1) by (simp add: data_quality_checks_filter)
qed

theorem date_rule_total_witness:
  "(2, rent) \<in> set (DataFrame [coffee, tea, rent]) \<and>
   strptime plain_library (transactionDate rent) = None \<and>
   (\<exists>accepted rejected.
      data_quality_checks plain_library (DataFrame [coffee, tea, rent]) = Inr (accepted, rejected) \<and>
      (2, rent) \<in> set rejected \<and> (2, rent) \<notin> set accepted)"
proof -
  have m: "(2, rent) \<in> set (DataFrame [coffee, tea, rent])"
    by (simp add: DataFrame_def)
  have p: "strptime plain_library (transactionDate rent) = None"
    by (simp add: rent_def plain_library_simps)
  from date_rule_total [OF m p] m p show ?thesis
    by blast
qed

section \<open>Properties of the statements\<close>

lemma conflict_update:
  assumes "conflict old excluded"
  shows "old\<lparr>customerName := customerName excluded,
             transactionDate := transactionDate excluded,
             sourceDate := sourceDate excluded,
             merchantId := merchantId excluded,
             categoryId := categoryId excluded,
             currency := currency excluded,
             amount := amount excluded,
             description := description excluded\<rparr> = excluded"
  using assms by (simp add: conflict_def)

lemma upsert_transaction_eq:
  "upsert_transaction tbl x =
     (if \<exists>old \<in> set tbl. conflict old x
      then map (\<lambda>old. if conflict old x then x else old) tbl else tbl @ [x])"
  by (auto simp: upsert_transaction_def conflict_update)

lemma key_of_upsert_transaction:
  "map (\<lambda>r. (customerId r, transactionId r)) (upsert_transaction tbl x) =
     (if \<exists>old \<in> set tbl. conflict old x
      then map (\<lambda>r. (customerId r, transactionId r)) tbl
      else map (\<lambda>r. (customerId r, transactionId r)) tbl @ [(customerId x, transactionId x)])"
  by (auto simp: upsert_transaction_eq conflict_def)

lemma upsert_transaction_key:
  assumes "transactions_key tbl"
  shows "transactions_key (upsert_transaction tbl x)"
proof (cases "\<exists>old \<in> set tbl. conflict old x")
  case True
  with assms show ?thesis
    by (simp add: transactions_key_def key_of_upsert_transaction)
next
  case False
  then have "(customerId x, transactionId x) \<notin> set (map (\<lambda>r. (customerId r, transactionId r)) tbl)"
    by (auto simp: conflict_def)
  with assms False show ?thesis
    by (simp add: transactions_key_def key_of_upsert_transaction)
qed

lemma filter_key_distinct:
  assumes "distinct (map f xs)" and "y \<in> set xs"
  shows "filter (\<lambda>r. f r = f y) xs = [y]"
  using assms
proof (induction xs)
  case Nil
  then show ?case by simp
next
  case (Cons a xs)
  show ?case
  proof (cases "a = y")
    case True
    from Cons.prems(1) have "f a \<notin> f ` set xs" by simp
    then have "\<forall>r \<in> set xs. f r \<noteq> f a" by (metis imageI)
    then have "filter (\<lambda>r. f r = f a) xs = []"
      by (simp add: filter_empty_conv)
    with True show ?thesis by simp
  next
    case False
    with Cons.prems have "y \<in> set xs" and "f a \<noteq> f y" by auto
    with Cons show ?thesis by simp
  qed
qed

lemma upsert_transaction_where:
  assumes "transactions_key tbl"
  shows "transactions_where (upsert_transaction tbl x) k =
           (if (customerId x, transactionId x) = k then [x] else transactions_where tbl k)"
proof (cases "\<exists>old \<in> set tbl. conflict old x")
  case False
  then have "filter (\<lambda>r. (customerId r, transactionId r) = (customerId x, transactionId x)) tbl = []"
    by (auto simp: filter_empty_conv conflict_def)
  with False show ?thesis
    by (auto simp: transactions_where_def upsert_transaction_eq)
next
  case True
  then obtain old where old: "old \<in> set tbl" "conflict old x" by blast
  let ?key = "\<lambda>r. (customerId r, transactionId r)"
  have keys: "?key old = ?key x"
    using old(2) by (simp add: conflict_def)
  from assms old(1) have one: "filter (\<lambda>r. ?key r = ?key old) tbl = [old]"
    unfolding transactions_key_def by (rule filter_key_distinct)
  have upd: "upsert_transaction tbl x = map (\<lambda>old. if conflict old x then x else old) tbl"
    using True by (simp add: upsert_transaction_eq)
  show ?thesis
  proof (cases "?key x = k")
    case same: True
    have "filter (\<lambda>r. ?key r = k) (map (\<lambda>old. if conflict old x then x else old) tbl) =
            map (\<lambda>old. if conflict old x then x else old) (filter (\<lambda>r. ?key r = ?key old) tbl)"
      using same keys by (induction tbl) (auto simp: conflict_def)
    also have "\<dots> = [x]"
      unfolding one using old(2) by simp
    finally show ?thesis
      using same by (simp add: transactions_where_def upd)
  next
    case other: False
    have "filter (\<lambda>r. ?key r = k) (map (\<lambda>old. if conflict old x then x else old) tbl) =
            filter (\<lambda>r. ?key r = k) tbl"
      using other by (induction tbl) (auto simp: conflict_def)
    then show ?thesis
      using other by (simp add: transactions_where_def upd)
  qed
qed

lemma foldl_upsert_transaction_key:
  "transactions_key tbl \<Longrightarrow> transactions_key (foldl upsert_transaction tbl rows)"
  by (induction rows arbitrary: tbl) (simp_all add: upsert_transaction_key)

lemma foldl_upsert_transaction_where:
  assumes "transactions_key tbl"
  shows "transactions_where (foldl upsert_transaction tbl rows) k =
           (case filter (\<lambda>r. (customerId r, transactionId r) = k) rows of
              [] \<Rightarrow> transactions_where tbl k
            | r # rs \<Rightarrow> [last (r # rs)])"
proof (induction rows rule: rev_induct)
  case Nil
  show ?case by simp
next
  case (snoc x rows)
  have "transactions_key (foldl upsert_transaction tbl rows)"
    using assms by (rule foldl_upsert_transaction_key)
  then show ?case
    using snoc by (simp add: upsert_transaction_where split: list.splits)
qed

section \<open>Properties of the batch execution\<close>

lemma concat_paginate: "concat (paginate xs) = xs"
proof (induction xs rule: paginate.induct)
  case (1 xs)
  show ?case
  proof (cases "xs = []")
    case True
    then show ?thesis by (simp add: paginate.simps)
  next
    case False
    with 1 have "concat (paginate (drop page_size xs)) = drop page_size xs" by simp
    with False show ?thesis
      by (subst paginate.simps) simp
  qed
qed

lemma execute_stdout: "stdout (snd (execute env s qs)) = stdout s"
  by (induction qs arbitrary: s) simp_all

lemma execute_failed_before: "failed s \<Longrightarrow> snd (execute env s qs) = s"
  by (cases qs) simp_all

lemma execute_failed_after:
  "failed (snd (execute env s qs)) = (failed s \<or> (\<exists>q \<in> set qs. refused env q))"
  by (induction qs arbitrary: s) auto

lemma execute_raises:
  "fst (execute env s qs) = None \<longleftrightarrow> qs = [] \<or> \<not> failed (snd (execute env s qs))"
  by (induction qs arbitrary: s) auto

lemma execute_pending:
  "\<not> failed (snd (execute env s qs)) \<Longrightarrow>
     pending (snd (execute env s qs)) = foldl run_statement (pending s) qs"
  by (induction qs arbitrary: s) (auto split: if_splits)

lemma execute_pages_stdout: "stdout (snd (execute_pages env s pages)) = stdout s"
proof (induction pages arbitrary: s)
  case Nil
  show ?case by simp
next
  case (Cons page pages)
  obtain e s' where ex: "execute env s page = (e, s')" by (cases "execute env s page")
  then have "stdout s' = stdout s"
    using execute_stdout [of env s page] by simp
  with Cons ex show ?case
    by (cases e) simp_all
qed

lemma execute_pages_failed_before: "failed s \<Longrightarrow> snd (execute_pages env s pages) = s"
proof (induction pages arbitrary: s)
  case Nil
  show ?case by simp
next
  case (Cons page pages)
  obtain e s' where ex: "execute env s page = (e, s')" by (cases "execute env s page")
  then have "s' = s"
    using execute_failed_before [OF Cons.prems, of env page] by simp
  with Cons ex show ?case
    by (cases e) simp_all
qed

text \<open>
  When the driver can build every statement, the transaction fails exactly when the server
  refuses one of the statements, and otherwise every statement has been applied.
\<close>

lemma execute_pages_failed_after:
  assumes "\<forall>q \<in> set (concat pages). \<not> unadaptable env q"
  shows "failed (snd (execute_pages env s pages)) =
           (failed s \<or> (\<exists>q \<in> set (concat pages). refused env q))"
  using assms
proof (induction pages arbitrary: s)
  case Nil
  show ?case by simp
next
  case (Cons page pages)
  obtain e s' where ex: "execute env s page = (e, s')" by (cases "execute env s page")
  have f: "failed s' = (failed s \<or> (\<exists>q \<in> set page. refused env q))"
    using execute_failed_after [of env s page] ex by simp
  have r: "e = None \<longleftrightarrow> page = [] \<or> \<not> failed s'"
    using execute_raises [of env s page] ex by simp
  from Cons.prems have nopage: "\<not> (\<exists>q \<in> set page. unadaptable env q)"
    and rest: "\<forall>q \<in> set (concat pages). \<not> unadaptable env q"
    by auto
  show ?case
  proof (cases e)
    case None
    with ex nopage have "execute_pages env s (page # pages) = execute_pages env s' pages"
      by simp
    with Cons.IH [OF rest, of s'] f show ?thesis
      by auto
  next
    case (Some err)
    with r have "failed s'" by simp
    moreover from Some ex nopage have "execute_pages env s (page # pages) = (Some err, s')"
      by simp
    ultimately show ?thesis
      using f by auto
  qed
qed

lemma execute_pages_pending:
  assumes "\<forall>q \<in> set (concat pages). \<not> unadaptable env q"
    and "\<not> failed (snd (execute_pages env s pages))"
  shows "pending (snd (execute_pages env s pages)) = foldl run_statement (pending s) (concat pages)"
  using assms
proof (induction pages arbitrary: s)
  case Nil
  show ?case by simp
next
  case (Cons page pages)
  obtain e s' where ex: "execute env s page = (e, s')" by (cases "execute env s page")
  from Cons.prems(1) have nopage: "\<not> (\<exists>q \<in> set page. unadaptable env q)"
    and rest: "\<forall>q \<in> set (concat pages). \<not> unadaptable env q"
    by auto
  show ?case
  proof (cases e)
    case None
    with ex nopage have step: "execute_pages env s (page # pages) = execute_pages env s' pages"
      by simp
    with Cons.prems(2) have nf: "\<not> failed (snd (execute_pages env s' pages))" by simp
    then have "\<not> failed s'"
      using execute_pages_failed_before [of s' env pages] by auto
    then have "pending s' = foldl run_statement (pending s) page"
      using execute_pending [of env s page] ex by simp
    with Cons.IH [OF rest nf] step show ?thesis by simp
  next
    case (Some err)
    with ex nopage have "execute_pages env s (page # pages) = (Some err, s')" by simp
    moreover from Some ex have "failed s'"
      using execute_raises [of env s page] by auto
    ultimately show ?thesis
      using Cons.prems(2) by simp
  qed
qed

lemma execute_pages_raises:
  assumes "\<forall>q \<in> set (concat pages). \<not> unadaptable env q"
    and "\<not> failed (snd (execute_pages env s pages))"
  shows "fst (execute_pages env s pages) = None"
  using assms
proof (induction pages arbitrary: s)
  case Nil
  show ?case by simp
next
  case (Cons page pages)
  obtain e s' where ex: "execute env s page = (e, s')" by (cases "execute env s page")
  from Cons.prems(1) have nopage: "\<not> (\<exists>q \<in> set page. unadaptable env q)"
    and rest: "\<forall>q \<in> set (concat pages). \<not> unadaptable env q"
    by auto
  show ?case
  proof (cases e)
    case None
    with ex nopage have step: "execute_pages env s (page # pages) = execute_pages env s' pages"
      by simp
    with Cons.prems(2) Cons.IH [OF rest, of s'] show ?thesis by simp
  next
    case (Some err)
    with ex nopage have "execute_pages env s (page # pages) = (Some err, s')" by simp
    moreover from Some ex have "failed s'"
      using execute_raises [of env s page] by auto
    ultimately show ?thesis
      using Cons.prems(2) by simp
  qed
qed

lemma execute_batch_stdout: "stdout (snd (execute_batch env s qs)) = stdout s"
  by (simp add: execute_batch_def execute_pages_stdout)

lemma execute_batch_failed_before: "failed s \<Longrightarrow> snd (execute_batch env s qs) = s"
  by (simp add: execute_batch_def execute_pages_failed_before)

lemma execute_batch_failed_after:
  "\<forall>q \<in> set qs. \<not> unadaptable env q \<Longrightarrow>
     failed (snd (execute_batch env s qs)) = (failed s \<or> (\<exists>q \<in> set qs. refused env q))"
  using execute_pages_failed_after [of "paginate qs" env s]
  by (simp add: execute_batch_def concat_paginate del: set_concat)

lemma execute_batch_pending:
  "\<forall>q \<in> set qs. \<not> unadaptable env q \<Longrightarrow> \<not> failed (snd (execute_batch env s qs)) \<Longrightarrow>
     pending (snd (execute_batch env s qs)) = foldl run_statement (pending s) qs"
  using execute_pages_pending [of "paginate qs" env s]
  by (simp add: execute_batch_def concat_paginate del: set_concat)

lemma execute_batch_no_faults:
  assumes "\<not> failed s" and "\<forall>q \<in> set qs. \<not> unadaptable env q \<and> \<not> refused env q"
  shows "execute_batch env s qs = (None, s\<lparr>pending := foldl run_statement (pending s) qs\<rparr>)"
proof -
  from assms have un: "\<forall>q \<in> set qs. \<not> unadaptable env q" by blast
  let ?s' = "snd (execute_batch env s qs)"
  have nf: "\<not> failed ?s'"
    using assms by (simp add: execute_batch_failed_after [OF un])
  have p: "pending ?s' = foldl run_statement (pending s) qs"
    using un nf by (rule execute_batch_pending)
  have o: "stdout ?s' = stdout s"
    by (rule execute_batch_stdout)
  have e: "fst (execute_batch env s qs) = None"
    using execute_pages_raises [of "paginate qs" env s] un nf
    by (simp add: execute_batch_def concat_paginate del: set_concat)
  have "?s' = s\<lparr>pending := foldl run_statement (pending s) qs\<rparr>"
    using nf p o assms(1) by (cases ?s'; cases s) simp
  with e show ?thesis
    by (simp add: prod_eq_iff)
qed

section \<open>Properties of the transaction sink\<close>

lemma foldl_insert_transaction:
  "foldl run_statement db (map insert_transaction rows) =
     db\<lparr>transactions_table := foldl upsert_transaction (transactions_table db) rows\<rparr>"
  by (induction rows arbitrary: db) simp_all

lemma insert_into_transactions_table_no_faults:
  assumes "\<not> failed s"
    and "\<forall>(l, r) \<in> set filtered_df.
           \<not> unadaptable env (insert_transaction r) \<and> \<not> refused env (insert_transaction r)"
  shows "pending (insert_into_transactions_table env s filtered_df) =
           (pending s)\<lparr>transactions_table :=
              foldl upsert_transaction (transactions_table (pending s)) (itertuples filtered_df)\<rparr>"
proof -
  from assms(2) have "\<forall>q \<in> set (map insert_transaction (itertuples filtered_df)).
      \<not> unadaptable env q \<and> \<not> refused env q"
    by (auto simp: itertuples_def)
  with assms(1) show ?thesis
    by (simp add: insert_into_transactions_table_def execute_batch_no_faults print_def
        foldl_insert_transaction)
qed

lemma upsert_transaction_idem:
  "upsert_transaction (upsert_transaction tbl x) x = upsert_transaction tbl x"
proof -
  let ?f = "\<lambda>old. if conflict old x then x else old"
  have self: "conflict x x" by (simp add: conflict_def)
  show ?thesis
  proof (cases "\<exists>old \<in> set tbl. conflict old x")
    case True
    then have first: "upsert_transaction tbl x = map ?f tbl"
      by (simp add: upsert_transaction_eq)
    from True self have "\<exists>old \<in> set (map ?f tbl). conflict old x"
      by auto
    then have "upsert_transaction (map ?f tbl) x = map ?f (map ?f tbl)"
      by (simp only: upsert_transaction_eq if_True)
    also have "\<dots> = map ?f tbl"
      using self by simp
    finally show ?thesis
      by (simp only: first)
  next
    case False
    then have first: "upsert_transaction tbl x = tbl @ [x]"
      by (simp add: upsert_transaction_eq)
    from False have same: "map ?f tbl = tbl"
      by (simp add: map_idI)
    from self have "\<exists>old \<in> set (tbl @ [x]). conflict old x"
      by auto
    then have "upsert_transaction (tbl @ [x]) x = map ?f (tbl @ [x])"
      by (simp only: upsert_transaction_eq if_True)
    also have "\<dots> = tbl @ [x]"
      using self same by simp
    finally show ?thesis
      by (simp only: first)
  qed
qed

text \<open>
  C8. Idempotent last-write-wins upsert: after an accepted record is written, the table
  has exactly one row with its \<open>(customerId, transactionId)\<close>, and that row is the record
  as submitted, whether or not the key was there before; writing the record a second
  time, in the same batch or in a later run on the tables the first write left, leaves
  the tables as writing it once.
\<close>

theorem idempotent_overwrite:
  assumes "transactions_key (transactions_table (pending s))"
    and "\<not> failed s"
    and "\<not> unadaptable env (insert_transaction r)"
    and "\<not> refused env (insert_transaction r)"
  shows "transactions_where
           (transactions_table (pending (insert_into_transactions_table env s [(l, r)])))
           (customerId r, transactionId r) = [r] \<and>
         pending (insert_into_transactions_table env s [(l, r), (l', r)]) =
           pending (insert_into_transactions_table env s [(l, r)]) \<and>
         pending (insert_into_transactions_table env
                    (cursor (pending (insert_into_transactions_table env s [(l, r)]))) [(l', r)]) =
           pending (insert_into_transactions_table env s [(l, r)])"
proof -
  let ?tbl = "transactions_table (pending s)"
  let ?s1 = "insert_into_transactions_table env s [(l, r)]"
  have once: "pending ?s1 = (pending s)\<lparr>transactions_table := upsert_transaction ?tbl r\<rparr>"
    using assms by (simp add: insert_into_transactions_table_no_faults itertuples_def)
  have again: "upsert_transaction (upsert_transaction ?tbl r) r = upsert_transaction ?tbl r"
    by (rule upsert_transaction_idem)
  have one: "transactions_where (transactions_table (pending ?s1)) (customerId r, transactionId r) = [r]"
    using assms(1) by (simp add: once upsert_transaction_where)
  have "\<not> failed (cursor (pending ?s1))"
    by (simp add: cursor_def)
  then have later:
    "pending (insert_into_transactions_table env (cursor (pending ?s1)) [(l', r)]) = pending ?s1"
    using assms(3,4)
    by (simp add: insert_into_transactions_table_no_faults itertuples_def cursor_def once again)
  have twice: "pending (insert_into_transactions_table env s [(l, r), (l', r)]) = pending ?s1"
    using assms by (simp add: insert_into_transactions_table_no_faults itertuples_def again)
  from one later twice show ?thesis by simp
qed

theorem idempotent_overwrite_witness:
  "transactions_key (transactions_table (pending (cursor coffee_loaded))) \<and>
   \<not> failed (cursor coffee_loaded) \<and>
   \<not> unadaptable no_faults (insert_transaction (coffee_row\<lparr>amount := 250\<rparr>)) \<and>
   \<not> refused no_faults (insert_transaction (coffee_row\<lparr>amount := 250\<rparr>)) \<and>
   transactions_where (transactions_table (pending (cursor coffee_loaded))) (7, 5) = [coffee_row] \<and>
   transactions_where
     (transactions_table (pending (insert_into_transactions_table no_faults (cursor coffee_loaded)
        [(0, coffee_row\<lparr>amount := 250\<rparr>)])))
     (7, 5) = [coffee_row\<lparr>amount := 250\<rparr>]"
proof -
  have k: "transactions_key (transactions_table (pending (cursor coffee_loaded)))"
    by (simp add: transactions_key_def cursor_def coffee_loaded_def)
  have f: "\<not> failed (cursor coffee_loaded)"
    by (simp add: cursor_def)
  have u: "\<not> unadaptable no_faults (insert_transaction (coffee_row\<lparr>amount := 250\<rparr>))"
    and r: "\<not> refused no_faults (insert_transaction (coffee_row\<lparr>amount := 250\<rparr>))"
    by (simp_all add: no_faults_def)
  have b: "transactions_where (transactions_table (pending (cursor coffee_loaded))) (7, 5) = [coffee_row]"
    by (simp add: transactions_where_def cursor_def coffee_loaded_def coffee_row_def)
  have key: "(customerId (coffee_row\<lparr>amount := 250\<rparr>), transactionId (coffee_row\<lparr>amount := 250\<rparr>)) = (7, 5)"
    by (simp add: coffee_row_def)
  from idempotent_overwrite [OF k f u r, of 0 0] k f u r b show ?thesis
    by (simp only: key) simp
qed

text \<open>
  C10. Several rows with the same key in one batch: the statements are applied one after
  the other in batch order, so the table ends with exactly one row for the key, the last
  row of the batch that has it.
\<close>

theorem last_row_of_batch_wins:
  assumes "transactions_key (transactions_table (pending s))"
    and "\<not> failed s"
    and "\<forall>(l, r) \<in> set filtered_df.
           \<not> unadaptable env (insert_transaction r) \<and> \<not> refused env (insert_transaction r)"
    and "(l, r) \<in> set filtered_df"
  shows "transactions_table (pending (insert_into_transactions_table env s filtered_df)) =
           foldl upsert_transaction (transactions_table (pending s)) (itertuples filtered_df) \<and>
         transactions_where
           (transactions_table (pending (insert_into_transactions_table env s filtered_df)))
           (customerId r, transactionId r) =
           [last (filter (\<lambda>x. (customerId x, transactionId x) = (customerId r, transactionId r))
                   (itertuples filtered_df))]"
proof -
  let ?same = "\<lambda>x. (customerId x, transactionId x) = (customerId r, transactionId r)"
  have tbl: "transactions_table (pending (insert_into_transactions_table env s filtered_df)) =
      foldl upsert_transaction (transactions_table (pending s)) (itertuples filtered_df)"
    using assms(2,3) by (simp add: insert_into_transactions_table_no_faults)
  from assms(4) have "r \<in> set (filter ?same (itertuples filtered_df))"
    by (force simp: itertuples_def)
  then have "filter ?same (itertuples filtered_df) \<noteq> []"
    by (metis empty_iff list.set(1))
  then obtain x xs where "filter ?same (itertuples filtered_df) = x # xs"
    by (meson list.exhaust)
  then have "transactions_where
      (foldl upsert_transaction (transactions_table (pending s)) (itertuples filtered_df))
      (customerId r, transactionId r) = [last (filter ?same (itertuples filtered_df))]"
    using assms(1) by (simp add: foldl_upsert_transaction_where)
  with tbl show ?thesis by simp
qed

theorem last_row_of_batch_wins_witness:
  "transactions_key (transactions_table (pending (cursor empty_tables))) \<and>
   \<not> failed (cursor empty_tables) \<and>
   (1, coffee_row\<lparr>amount := 250\<rparr>) \<in> set [(0, coffee_row), (1, coffee_row\<lparr>amount := 250\<rparr>), (2, lunch_row)] \<and>
   transactions_where
     (transactions_table (pending (insert_into_transactions_table no_faults (cursor empty_tables)
        [(0, coffee_row), (1, coffee_row\<lparr>amount := 250\<rparr>), (2, lunch_row)])))
     (7, 5) = [coffee_row\<lparr>amount := 250\<rparr>]"
proof -
  let ?batch = "[(0, coffee_row), (1, coffee_row\<lparr>amount := 250\<rparr>), (2::nat, lunch_row)]"
  have k: "transactions_key (transactions_table (pending (cursor empty_tables)))"
    by (simp add: transactions_key_def cursor_def empty_tables_def)
  have f: "\<not> failed (cursor empty_tables)"
    by (simp add: cursor_def)
  have n: "\<forall>(l, r) \<in> set ?batch.
      \<not> unadaptable no_faults (insert_transaction r) \<and> \<not> refused no_faults (insert_transaction r)"
    by (simp add: no_faults_def)
  have m: "(1, coffee_row\<lparr>amount := 250\<rparr>) \<in> set ?batch"
    by simp
  have key: "(customerId (coffee_row\<lparr>amount := 250\<rparr>), transactionId (coffee_row\<lparr>amount := 250\<rparr>)) = (7, 5)"
    by (simp add: coffee_row_def)
  note w = last_row_of_batch_wins [OF k f n m, THEN conjunct2, unfolded key]
  from w k f m show ?thesis
    by (simp add: itertuples_def coffee_row_def lunch_row_def)
qed

section \<open>Properties of the customer sink\<close>

lemma find_map_same:
  assumes "\<And>r. P (f r) = P r"
  shows "find P (map f xs) = map_option f (find P xs)"
  by (induction xs) (simp_all add: assms)

lemma find_snoc:
  "find P (xs @ [x]) = (case find P xs of None \<Rightarrow> (if P x then Some x else None) | Some y \<Rightarrow> Some y)"
  by (induction xs) simp_all

lemma find_customer_id: "customer_where tbl c = Some r \<Longrightarrow> c_customerId r = c \<and> r \<in> set tbl"
  unfolding customer_where_def by (induction tbl) (auto split: if_splits)

lemma customer_where_None: "customer_where tbl c = None \<longleftrightarrow> (\<forall>r \<in> set tbl. c_customerId r \<noteq> c)"
  unfolding customer_where_def by (auto simp: find_None_iff)

lemma upsert_customer_where:
  "customer_where (upsert_customer tbl x) c = merge_customer c x (customer_where tbl c)"
proof (cases "\<exists>old \<in> set tbl. c_customerId old = c_customerId x")
  case True
  let ?f = "\<lambda>old. if c_customerId old = c_customerId x then
      old\<lparr>c_customerName := c_customerName x,
          c_transactionDate := max (c_transactionDate x) (c_transactionDate old)\<rparr> else old"
  have upd: "upsert_customer tbl x = map ?f tbl"
    using True by (simp add: upsert_customer_def)
  have look: "customer_where (map ?f tbl) c = map_option ?f (customer_where tbl c)"
    unfolding customer_where_def by (rule find_map_same) simp
  show ?thesis
  proof (cases "customer_where tbl c")
    case None
    then have "c_customerId x \<noteq> c"
      using True by (auto simp: customer_where_None)
    with None show ?thesis
      by (simp add: upd look merge_customer_def)
  next
    case (Some old)
    then have "c_customerId old = c" by (simp add: find_customer_id)
    with Some show ?thesis
      by (simp add: upd look merge_customer_def)
  qed
next
  case False
  then have upd: "upsert_customer tbl x = tbl @ [x]"
    by (simp add: upsert_customer_def)
  show ?thesis
  proof (cases "customer_where tbl c")
    case None
    then show ?thesis
      by (simp add: upd merge_customer_def customer_where_def find_snoc)
  next
    case (Some old)
    then have "c_customerId old = c" and "old \<in> set tbl" by (simp_all add: find_customer_id)
    with False have "c_customerId x \<noteq> c" by auto
    with Some show ?thesis
      by (simp add: upd merge_customer_def customer_where_def find_snoc)
  qed
qed

lemma foldl_upsert_customer_where:
  "customer_where (foldl upsert_customer tbl xs) c =
     fold (merge_customer c) xs (customer_where tbl c)"
  by (induction xs arbitrary: tbl) (simp_all add: upsert_customer_where)

lemma merge_customer_date:
  "map_option c_transactionDate (merge_customer c x found) =
     (if c_customerId x = c then
        Some (case map_option c_transactionDate found of
                None \<Rightarrow> c_transactionDate x
              | Some d \<Rightarrow> max (c_transactionDate x) d)
      else map_option c_transactionDate found)"
  by (cases found) (simp_all add: merge_customer_def)

lemma fold_merge_customer_date_eq:
  "map_option c_transactionDate (fold (merge_customer c) xs found) =
     fold (\<lambda>x d. if c_customerId x = c then
                    Some (case d of None \<Rightarrow> c_transactionDate x
                          | Some d' \<Rightarrow> max (c_transactionDate x) d')
                  else d) xs (map_option c_transactionDate found)"
proof (induction xs arbitrary: found)
  case Nil
  show ?case by simp
next
  case (Cons x xs)
  show ?case
    by (simp only: fold.simps comp_apply Cons.IH merge_customer_date)
qed

lemma fold_merge_customer_date_permuted:
  assumes "mset xs = mset ys"
  shows "map_option c_transactionDate (fold (merge_customer c) xs found) =
         map_option c_transactionDate (fold (merge_customer c) ys found)"
proof -
  let ?g = "\<lambda>x d. if c_customerId x = c then
                    Some (case d of None \<Rightarrow> c_transactionDate x
                          | Some d' \<Rightarrow> max (c_transactionDate x) d')
                  else d"
  have "?g x \<circ> ?g y = ?g y \<circ> ?g x" for x y
    by (auto simp: fun_eq_iff max.commute max.left_commute split: option.splits)
  then have "fold ?g xs = fold ?g ys"
    using assms by (intro fold_multiset_equiv)
  then show ?thesis
    by (simp only: fold_merge_customer_date_eq)
qed

lemma merge_customer_commute:
  assumes "c_customerId x = c_customerId y \<longrightarrow> c_customerName x = c_customerName y"
  shows "merge_customer c x \<circ> merge_customer c y = merge_customer c y \<circ> merge_customer c x"
proof
  fix found
  show "(merge_customer c x \<circ> merge_customer c y) found =
        (merge_customer c y \<circ> merge_customer c x) found"
    using assms
    by (cases found; cases x; cases y)
      (auto simp: merge_customer_def max.commute max.left_commute)
qed

lemma fold_merge_customer_permuted:
  assumes "mset xs = mset ys"
    and "\<forall>x \<in> set xs. \<forall>y \<in> set xs.
           c_customerId x = c_customerId y \<longrightarrow> c_customerName x = c_customerName y"
  shows "fold (merge_customer c) xs = fold (merge_customer c) ys"
proof (rule fold_multiset_equiv)
  fix x y
  assume "x \<in> set xs" and "y \<in> set xs"
  with assms(2) have "c_customerId x = c_customerId y \<longrightarrow> c_customerName x = c_customerName y"
    by blast
  then show "merge_customer c x \<circ> merge_customer c y = merge_customer c y \<circ> merge_customer c x"
    by (rule merge_customer_commute)
next
  show "mset xs = mset ys"
    by (rule assms(1))
qed

lemma merge_customer_name:
  "c_customerId x = c \<Longrightarrow>
     map_option c_customerName (merge_customer c x found) = Some (c_customerName x)"
  by (cases found) (simp_all add: merge_customer_def)

lemma merge_customer_other: "c_customerId x \<noteq> c \<Longrightarrow> merge_customer c x found = found"
  by (simp add: merge_customer_def)

lemma fold_merge_customer_name:
  assumes "filter (\<lambda>x. c_customerId x = c) xs \<noteq> []"
  shows "map_option c_customerName (fold (merge_customer c) xs found) =
           Some (c_customerName (last (filter (\<lambda>x. c_customerId x = c) xs)))"
  using assms
proof (induction xs rule: rev_induct)
  case Nil
  then show ?case by simp
next
  case (snoc x xs)
  have step: "fold (merge_customer c) (xs @ [x]) found =
      merge_customer c x (fold (merge_customer c) xs found)"
    by simp
  show ?case
  proof (cases "c_customerId x = c")
    case True
    then show ?thesis
      by (simp only: step merge_customer_name) simp
  next
    case False
    then have "merge_customer c x (fold (merge_customer c) xs found) =
        fold (merge_customer c) xs found"
      by (rule merge_customer_other)
    then have a: "fold (merge_customer c) (xs @ [x]) found = fold (merge_customer c) xs found"
      by (simp only: step)
    from False have b:
      "filter (\<lambda>x. c_customerId x = c) (xs @ [x]) = filter (\<lambda>x. c_customerId x = c) xs"
      by simp
    from snoc.prems [unfolded b] have "filter (\<lambda>x. c_customerId x = c) xs \<noteq> []" .
    then have "map_option c_customerName (fold (merge_customer c) xs found) =
        Some (c_customerName (last (filter (\<lambda>x. c_customerId x = c) xs)))"
      by (rule snoc.IH)
    then show ?thesis
      by (simp only: a b)
  qed
qed

lemma foldl_insert_customer:
  "foldl run_statement db (map insert_customer rows) =
     db\<lparr>customer_table := foldl upsert_customer (customer_table db) rows\<rparr>"
  by (induction rows arbitrary: db) simp_all

lemma insert_into_customer_table_no_faults:
  assumes "\<not> failed s"
    and "\<forall>(l, r) \<in> set filtered_df.
           \<not> unadaptable env (insert_customer (customer_columns r)) \<and>
           \<not> refused env (insert_customer (customer_columns r))"
  shows "pending (insert_into_customer_table env s filtered_df) =
           (pending s)\<lparr>customer_table :=
              foldl upsert_customer (customer_table (pending s))
                (map customer_columns (itertuples filtered_df))\<rparr>"
proof -
  let ?qs = "map insert_customer (map customer_columns (itertuples filtered_df))"
  from assms(2) have "\<forall>q \<in> set ?qs. \<not> unadaptable env q \<and> \<not> refused env q"
    by (auto simp: itertuples_def)
  with assms(1) have
    "execute_batch env s ?qs = (None, s\<lparr>pending := foldl run_statement (pending s) ?qs\<rparr>)"
    by (rule execute_batch_no_faults)
  then show ?thesis
    unfolding insert_into_customer_table_def foldl_insert_customer
    by (simp add: print_def)
qed

lemma customer_where_insert_into_customer_table:
  assumes "\<not> failed s"
    and "\<forall>(l, r) \<in> set filtered_df.
           \<not> unadaptable env (insert_customer (customer_columns r)) \<and>
           \<not> refused env (insert_customer (customer_columns r))"
  shows "customer_where (customer_table (pending (insert_into_customer_table env s filtered_df))) c =
           fold (merge_customer c) (map customer_columns (itertuples filtered_df))
             (customer_where (customer_table (pending s)) c)"
  using assms by (simp add: insert_into_customer_table_no_faults foldl_upsert_customer_where)

text \<open>
  C9. Order within a batch: the claim is that the row \<^verbatim>\<open>insert_into_customer_table\<close>
  leaves for a customer is the same for every permutation of the batch. The statement
  overwrites \<open>customerName\<close> with the incoming name, so the name of the row is the name of
  the customer's last row in batch order: two rows of customer 7 that carry the names
  \<open>Ann\<close> and \<open>Ann Lee\<close> leave different rows in their two orders.
\<close>

theorem rollup_row_depends_on_order:
  "customer_where (customer_table (pending
      (insert_into_customer_table no_faults (cursor empty_tables)
         [(0, coffee_row), (1, lunch_row)]))) 7 =
     Some \<lparr>c_customerId = 7, c_customerName = ''Ann Lee'', c_transactionDate = (2024, 1, 12, 0)\<rparr> \<and>
   customer_where (customer_table (pending
      (insert_into_customer_table no_faults (cursor empty_tables)
         [(1, lunch_row), (0, coffee_row)]))) 7 =
     Some \<lparr>c_customerId = 7, c_customerName = ''Ann'', c_transactionDate = (2024, 1, 12, 0)\<rparr> \<and>
   customer_where (customer_table (pending
      (insert_into_customer_table no_faults (cursor empty_tables)
         [(0, coffee_row), (1, lunch_row)]))) 7 \<noteq>
   customer_where (customer_table (pending
      (insert_into_customer_table no_faults (cursor empty_tables)
         [(1, lunch_row), (0, coffee_row)]))) 7"
  by code_simp

text \<open>
  C9, as the code has it: for every permutation of the batch the \<open>transactionDate\<close> of a
  customer's row is the same; the \<open>customerName\<close> of the row is that of the customer's last
  row in batch order; and the whole row is the same for every permutation when the rows of
  one customer carry one name.
\<close>

theorem rollup_date_order_independent:
  assumes "mset permuted = mset filtered_df"
    and "\<not> failed s"
    and "\<forall>(l, r) \<in> set filtered_df.
           \<not> unadaptable env (insert_customer (customer_columns r)) \<and>
           \<not> refused env (insert_customer (customer_columns r))"
  shows "map_option c_transactionDate
           (customer_where (customer_table (pending (insert_into_customer_table env s permuted))) c) =
         map_option c_transactionDate
           (customer_where (customer_table (pending (insert_into_customer_table env s filtered_df))) c) \<and>
         (filter (\<lambda>r. customerId r = c) (itertuples filtered_df) \<noteq> [] \<longrightarrow>
            map_option c_customerName
              (customer_where (customer_table (pending (insert_into_customer_table env s filtered_df))) c) =
            Some (customerName (last (filter (\<lambda>r. customerId r = c) (itertuples filtered_df))))) \<and>
         ((\<forall>(l, a) \<in> set filtered_df. \<forall>(l', b) \<in> set filtered_df.
              customerId a = customerId b \<longrightarrow> customerName a = customerName b) \<longrightarrow>
            customer_where (customer_table (pending (insert_into_customer_table env s permuted))) c =
            customer_where (customer_table (pending (insert_into_customer_table env s filtered_df))) c)"
proof -
  let ?cols = "\<lambda>df. map customer_columns (itertuples df)"
  let ?found = "customer_where (customer_table (pending s)) c"
  from assms(1) have same_set: "set permuted = set filtered_df"
    by (rule mset_eq_setD)
  with assms(3) have nofaults: "\<forall>(l, r) \<in> set permuted.
      \<not> unadaptable env (insert_customer (customer_columns r)) \<and>
      \<not> refused env (insert_customer (customer_columns r))"
    by simp
  have p: "customer_where (customer_table (pending (insert_into_customer_table env s permuted))) c =
      fold (merge_customer c) (?cols permuted) ?found"
    using assms(2) nofaults by (rule customer_where_insert_into_customer_table)
  have q: "customer_where (customer_table (pending (insert_into_customer_table env s filtered_df))) c =
      fold (merge_customer c) (?cols filtered_df) ?found"
    using assms(2,3) by (rule customer_where_insert_into_customer_table)
  have ms: "mset (?cols permuted) = mset (?cols filtered_df)"
    by (simp only: itertuples_def mset_map assms(1))
  have dates: "map_option c_transactionDate (fold (merge_customer c) (?cols permuted) ?found) =
      map_option c_transactionDate (fold (merge_customer c) (?cols filtered_df) ?found)"
    using ms by (rule fold_merge_customer_date_permuted)
  have sel: "filter (\<lambda>x. c_customerId x = c) (?cols filtered_df) =
      map customer_columns (filter (\<lambda>r. customerId r = c) (itertuples filtered_df))"
    by (simp add: filter_map comp_def customer_columns_def)
  have name: "map_option c_customerName (fold (merge_customer c) (?cols filtered_df) ?found) =
      Some (customerName (last (filter (\<lambda>r. customerId r = c) (itertuples filtered_df))))"
    if ne: "filter (\<lambda>r. customerId r = c) (itertuples filtered_df) \<noteq> []"
  proof -
    from ne have "filter (\<lambda>x. c_customerId x = c) (?cols filtered_df) \<noteq> []"
      by (simp only: sel) simp
    then have "map_option c_customerName (fold (merge_customer c) (?cols filtered_df) ?found) =
        Some (c_customerName (last (filter (\<lambda>x. c_customerId x = c) (?cols filtered_df))))"
      by (rule fold_merge_customer_name)
    also have "\<dots> = Some (customerName (last (filter (\<lambda>r. customerId r = c) (itertuples filtered_df))))"
      using ne by (simp only: sel) (simp add: last_map customer_columns_def)
    finally show ?thesis .
  qed
  have rows: "fold (merge_customer c) (?cols permuted) ?found =
      fold (merge_customer c) (?cols filtered_df) ?found"
    if agree: "\<forall>(l, a) \<in> set filtered_df. \<forall>(l', b) \<in> set filtered_df.
        customerId a = customerId b \<longrightarrow> customerName a = customerName b"
  proof -
    from agree same_set have "\<forall>x \<in> set (?cols permuted). \<forall>y \<in> set (?cols permuted).
        c_customerId x = c_customerId y \<longrightarrow> c_customerName x = c_customerName y"
      by (fastforce simp: itertuples_def customer_columns_def)
    with ms have "fold (merge_customer c) (?cols permuted) = fold (merge_customer c) (?cols filtered_df)"
      by (rule fold_merge_customer_permuted)
    then show ?thesis by simp
  qed
  from dates name rows show ?thesis
    by (simp only: p q) blast
qed

theorem rollup_date_order_independent_witness:
  "mset [(1, lunch_row), (0, coffee_row)] = mset [(0, coffee_row), (1, lunch_row)] \<and>
   \<not> failed (cursor empty_tables) \<and>
   map_option c_transactionDate
     (customer_where (customer_table (pending
        (insert_into_customer_table no_faults (cursor empty_tables)
           [(1, lunch_row), (0, coffee_row)]))) 7) =
   map_option c_transactionDate
     (customer_where (customer_table (pending
        (insert_into_customer_table no_faults (cursor empty_tables)
           [(0, coffee_row), (1, lunch_row)]))) 7) \<and>
   map_option c_customerName
     (customer_where (customer_table (pending
        (insert_into_customer_table no_faults (cursor empty_tables)
           [(0, coffee_row), (1, lunch_row)]))) 7) = Some ''Ann Lee''"
proof -
  let ?batch = "[(0::nat, coffee_row), (1, lunch_row)]"
  have m: "mset [(1, lunch_row), (0::nat, coffee_row)] = mset ?batch"
    by (simp add: add.commute)
  have f: "\<not> failed (cursor empty_tables)"
    by (simp add: cursor_def)
  have n: "\<forall>(l, r) \<in> set ?batch.
      \<not> unadaptable no_faults (insert_customer (customer_columns r)) \<and>
      \<not> refused no_faults (insert_customer (customer_columns r))"
    by (simp add: no_faults_def)
  have ne: "filter (\<lambda>r. customerId r = 7) (itertuples ?batch) \<noteq> []"
    by (simp add: itertuples_def coffee_row_def)
  have l: "customerName (last (filter (\<lambda>r. customerId r = 7) (itertuples ?batch))) = ''Ann Lee''"
    by (simp add: itertuples_def coffee_row_def lunch_row_def)
  note w = rollup_date_order_independent [OF m f n, of 7]
  from w [THEN conjunct1] w [THEN conjunct2, THEN conjunct1, rule_format, OF ne]
  show ?thesis
    using m f by (simp only: l) simp
qed

section \<open>Properties of the run\<close>

lemma never_reduced_refl: "never_reduced tbl tbl"
  by (simp add: never_reduced_def)

lemma never_reduced_trans:
  assumes "never_reduced a b" and "never_reduced b c"
  shows "never_reduced a c"
  unfolding never_reduced_def
proof (intro allI impI)
  fix k old
  assume "customer_where a k = Some old"
  with assms(1) obtain mid where mid: "customer_where b k = Some mid"
    "c_transactionDate old \<le> c_transactionDate mid"
    unfolding never_reduced_def by blast
  with assms(2) obtain new where "customer_where c k = Some new"
    "c_transactionDate mid \<le> c_transactionDate new"
    unfolding never_reduced_def by blast
  with mid(2) show "\<exists>new. customer_where c k = Some new \<and> c_transactionDate old \<le> c_transactionDate new"
    by (meson order_trans)
qed

lemma never_reduced_upsert_customer: "never_reduced tbl (upsert_customer tbl x)"
  by (simp add: never_reduced_def upsert_customer_where merge_customer_def)

lemma never_reduced_run_statement:
  "never_reduced (customer_table db) (customer_table (run_statement db q))"
  by (cases q) (simp_all add: never_reduced_refl never_reduced_upsert_customer)

lemma never_reduced_execute:
  "never_reduced (customer_table (pending s)) (customer_table (pending (snd (execute env s qs))))"
proof (induction qs arbitrary: s)
  case Nil
  show ?case by (simp add: never_reduced_refl)
next
  case (Cons q qs)
  show ?case
  proof (cases "failed s \<or> refused env q")
    case True
    then show ?thesis by (auto simp: never_reduced_refl)
  next
    case False
    let ?s = "s\<lparr>pending := run_statement (pending s) q\<rparr>"
    have "never_reduced (customer_table (pending s)) (customer_table (pending ?s))"
      by (simp add: never_reduced_run_statement)
    moreover have "never_reduced (customer_table (pending ?s))
        (customer_table (pending (snd (execute env ?s qs))))"
      by (rule Cons.IH)
    ultimately have "never_reduced (customer_table (pending s))
        (customer_table (pending (snd (execute env ?s qs))))"
      by (rule never_reduced_trans)
    with False show ?thesis by simp
  qed
qed

lemma never_reduced_execute_pages:
  "never_reduced (customer_table (pending s))
     (customer_table (pending (snd (execute_pages env s pages))))"
proof (induction pages arbitrary: s)
  case Nil
  show ?case by (simp add: never_reduced_refl)
next
  case (Cons page pages)
  obtain e s' where ex: "execute env s page = (e, s')" by (cases "execute env s page")
  have first: "never_reduced (customer_table (pending s)) (customer_table (pending s'))"
    using never_reduced_execute [of s env page] ex by simp
  show ?case
  proof (cases "\<exists>q \<in> set page. unadaptable env q")
    case True
    then show ?thesis by (simp add: never_reduced_refl)
  next
    case False
    show ?thesis
    proof (cases e)
      case None
      have "never_reduced (customer_table (pending s'))
          (customer_table (pending (snd (execute_pages env s' pages))))"
        by (rule Cons.IH)
      with first have "never_reduced (customer_table (pending s))
          (customer_table (pending (snd (execute_pages env s' pages))))"
        by (rule never_reduced_trans)
      with False None ex show ?thesis by simp
    next
      case (Some err)
      with False ex first show ?thesis by simp
    qed
  qed
qed

lemma never_reduced_execute_batch:
  "never_reduced (customer_table (pending s))
     (customer_table (pending (snd (execute_batch env s qs))))"
  by (simp add: execute_batch_def never_reduced_execute_pages)

text \<open>A sink is its batch followed by one printed line.\<close>

lemma insert_into_transactions_table_session:
  "\<exists>line. insert_into_transactions_table env s df =
     print line (snd (execute_batch env s (map insert_transaction (itertuples df))))"
  by (auto simp: insert_into_transactions_table_def split: prod.splits option.splits)

lemma insert_into_customer_table_session:
  "\<exists>line. insert_into_customer_table env s df =
     print line (snd (execute_batch env s
       (map insert_customer (map customer_columns (itertuples df)))))"
  by (auto simp: insert_into_customer_table_def split: prod.splits option.splits)

lemma insert_into_error_log_table_session:
  "\<exists>line. insert_into_error_log_table env s df =
     print line (snd (execute_batch env s
       (map insert_error_log (map error_log_columns (itertuples df)))))"
  by (auto simp: insert_into_error_log_table_def split: prod.splits option.splits)

lemma pending_print [simp]: "pending (print line s) = pending s"
  by (simp add: print_def)

lemma failed_print [simp]: "failed (print line s) = failed s"
  by (simp add: print_def)

lemma stdout_print [simp]: "stdout (print line s) = stdout s @ [line]"
  by (simp add: print_def)

lemma never_reduced_sinks:
  "never_reduced (customer_table (pending s))
     (customer_table (pending (insert_into_transactions_table env s typed_df)))"
  "never_reduced (customer_table (pending s))
     (customer_table (pending (insert_into_customer_table env s typed_df)))"
  "never_reduced (customer_table (pending s))
     (customer_table (pending (insert_into_error_log_table env s failed_df)))"
proof -
  obtain l1 where "insert_into_transactions_table env s typed_df =
      print l1 (snd (execute_batch env s (map insert_transaction (itertuples typed_df))))"
    using insert_into_transactions_table_session by blast
  then show "never_reduced (customer_table (pending s))
     (customer_table (pending (insert_into_transactions_table env s typed_df)))"
    by (simp add: never_reduced_execute_batch)
  obtain l2 where "insert_into_customer_table env s typed_df =
      print l2 (snd (execute_batch env s
        (map insert_customer (map customer_columns (itertuples typed_df)))))"
    using insert_into_customer_table_session by blast
  then show "never_reduced (customer_table (pending s))
     (customer_table (pending (insert_into_customer_table env s typed_df)))"
    by (simp add: never_reduced_execute_batch del: map_map)
  obtain l3 where "insert_into_error_log_table env s failed_df =
      print l3 (snd (execute_batch env s
        (map insert_error_log (map error_log_columns (itertuples failed_df)))))"
    using insert_into_error_log_table_session by blast
  then show "never_reduced (customer_table (pending s))
     (customer_table (pending (insert_into_error_log_table env s failed_df)))"
    by (simp add: never_reduced_execute_batch del: map_map)
qed

lemma pending_create_tables: "pending (create_tables env s) = pending s"
  by (simp add: create_tables_def)

lemma main_raises:
  assumes "data_quality_checks lib df = Inr (filtered_df, failed_df)"
    and "convert_types lib filtered_df = Inl e"
  shows "main lib env df db =
           \<lparr>raised = Some e, printed = stdout (create_tables env (cursor db)), store = db\<rparr>"
  using assms by (simp add: main_def Let_def)

lemma main_commits:
  assumes "data_quality_checks lib df = Inr (filtered_df, failed_df)"
    and "convert_types lib filtered_df = Inr typed_df"
  shows "main lib env df db =
           \<lparr>raised = None,
            printed = stdout (insert_into_error_log_table env
              (insert_into_customer_table env
                (insert_into_transactions_table env (create_tables env (cursor db)) typed_df)
                typed_df) failed_df),
            store = commit db (insert_into_error_log_table env
              (insert_into_customer_table env
                (insert_into_transactions_table env (create_tables env (cursor db)) typed_df)
                typed_df) failed_df)\<rparr>"
  using assms by (simp add: main_def Let_def)

lemma main_empty:
  "main lib env [] db =
     \<lparr>raised = Some KeyError, printed = stdout (create_tables env (cursor db)), store = db\<rparr>"
  by (simp add: main_def Let_def data_quality_checks_empty)

lemma data_quality_checks_returns:
  "df \<noteq> [] \<Longrightarrow>
     \<exists>filtered_df failed_df. data_quality_checks lib df = Inr (filtered_df, failed_df)"
  by (simp add: data_quality_checks_filter)

lemma never_reduced_main:
  "never_reduced (customer_table db) (customer_table (store (main lib env df db)))"
proof (cases "df = []")
  case True
  then show ?thesis
    by (simp add: main_empty never_reduced_refl)
next
  case False
  then obtain filtered_df failed_df where
    checked: "data_quality_checks lib df = Inr (filtered_df, failed_df)"
    using data_quality_checks_returns by blast
  show ?thesis
  proof (cases "convert_types lib filtered_df")
    case (Inl e)
    with checked show ?thesis
      by (simp add: main_raises never_reduced_refl)
  next
    case (Inr typed_df)
    let ?s1 = "create_tables env (cursor db)"
    let ?s2 = "insert_into_transactions_table env ?s1 typed_df"
    let ?s3 = "insert_into_customer_table env ?s2 typed_df"
    let ?s4 = "insert_into_error_log_table env ?s3 failed_df"
    have result: "store (main lib env df db) = commit db ?s4"
      using checked Inr by (simp add: main_commits)
    have "pending ?s1 = db"
      by (simp add: pending_create_tables cursor_def)
    then have "never_reduced (customer_table db) (customer_table (pending ?s2))"
      using never_reduced_sinks(1) [of ?s1 env typed_df] by simp
    then have "never_reduced (customer_table db) (customer_table (pending ?s3))"
      using never_reduced_sinks(2) [of ?s2 env typed_df] by (rule never_reduced_trans)
    then have "never_reduced (customer_table db) (customer_table (pending ?s4))"
      using never_reduced_sinks(3) [of ?s3 env failed_df] by (rule never_reduced_trans)
    then show ?thesis
      by (simp add: result commit_def never_reduced_refl)
  qed
qed

lemma runs_snoc: "runs lib (batches @ [(env, df)]) db = store (main lib env df (runs lib batches db))"
  by (simp add: runs_def)

text \<open>
  C5. Rollup monotonicity: when a customer has a row in \<open>customer_table\<close> after a sequence
  of runs, then after one more run, whatever its batch and whatever fails in it, the
  customer still has a row and its \<open>transactionDate\<close> is not lower than before.
\<close>

theorem rollup_never_reduced:
  assumes "customer_where (customer_table (runs lib batches db)) c = Some before"
  shows "\<exists>after.
           customer_where (customer_table (runs lib (batches @ [(env, df)]) db)) c = Some after \<and>
           c_transactionDate before \<le> c_transactionDate after"
  using assms never_reduced_main [of "runs lib batches db" lib env df]
  unfolding never_reduced_def runs_snoc by blast

theorem rollup_never_reduced_witness:
  "customer_where (customer_table
      (runs plain_library [(no_faults, DataFrame [new_year])] empty_tables)) 7 =
     Some \<lparr>c_customerId = 7, c_customerName = ''Ann'', c_transactionDate = (2024, 1, 1, 0)\<rparr> \<and>
   (\<exists>after.
      customer_where (customer_table
        (runs plain_library ([(no_faults, DataFrame [new_year])] @ [(no_faults, DataFrame [summer])])
           empty_tables)) 7 = Some after \<and>
      (2024, 1, 1, 0) \<le> c_transactionDate after)"
proof -
  have before: "customer_where (customer_table
      (runs plain_library [(no_faults, DataFrame [new_year])] empty_tables)) 7 =
     Some \<lparr>c_customerId = 7, c_customerName = ''Ann'', c_transactionDate = (2024, 1, 1, 0)\<rparr>"
    by code_simp
  from rollup_never_reduced [OF before, of no_faults "DataFrame [summer]"] before
  show ?thesis by simp
qed

lemma failed_create_tables: "failed (create_tables env (cursor db)) = create_refused env"
  by (simp add: create_tables_def cursor_def)

lemma stdout_create_tables:
  "create_refused env \<Longrightarrow> stdout (create_tables env (cursor db)) = [''Error creating tables:'']"
  by (simp add: create_tables_def cursor_def)

lemma sinks_after_failure:
  assumes "failed s"
  shows "\<exists>line. insert_into_transactions_table env s typed_df = print line s"
    and "\<exists>line. insert_into_customer_table env s typed_df = print line s"
    and "\<exists>line. insert_into_error_log_table env s failed_df = print line s"
  using assms insert_into_transactions_table_session [of env s typed_df]
    insert_into_customer_table_session [of env s typed_df]
    insert_into_error_log_table_session [of env s failed_df]
  by (simp_all add: execute_batch_failed_before del: map_map)

text \<open>
  C3. A failure of the schema initialization: the claim is that it is fatal, the run
  aborting before any validation or write. \<^verbatim>\<open>create_tables\<close> catches the error and prints it,
  and \<^verbatim>\<open>main\<close> goes on: with a refused \<^verbatim>\<open>CREATE TABLE\<close> the run of a batch of one good and
  one bad record calls the three sinks, each of which prints its own error, and ends
  without an exception.
\<close>

theorem schema_failure_is_not_fatal:
  "create_refused schema_refused \<and>
   raised (main plain_library schema_refused (DataFrame [coffee, tea]) empty_tables) = None \<and>
   printed (main plain_library schema_refused (DataFrame [coffee, tea]) empty_tables) =
     [''Error creating tables:'', ''Error inserting or updating transactions:'',
      ''Error inserting or updating customer records:'',
      ''Error inserting error log records:'']"
  by code_simp

text \<open>
  C3, as the code has it: a failure of \<^verbatim>\<open>create_tables\<close> is printed and the run continues
  (it raises exactly when the same run with a successful \<^verbatim>\<open>create_tables\<close> raises); the
  server has put the transaction in its failed state, so nothing the sinks send is kept
  and the committed tables after the run are those before it.
\<close>

theorem schema_failure_keeps_nothing:
  assumes "create_refused env"
  shows "store (main lib env df db) = db \<and>
         raised (main lib env df db) = raised (main lib (env\<lparr>create_refused := False\<rparr>) df db) \<and>
         take 1 (printed (main lib env df db)) = [''Error creating tables:'']"
proof (cases "df = []")
  case True
  have "stdout (create_tables env (cursor db)) = [''Error creating tables:'']"
    using assms by (rule stdout_create_tables)
  with True show ?thesis
    by (simp add: main_empty)
next
  case False
  then obtain filtered_df failed_df where
    checked: "data_quality_checks lib df = Inr (filtered_df, failed_df)"
    using data_quality_checks_returns by blast
  let ?s1 = "create_tables env (cursor db)"
  have f1: "failed ?s1"
    using assms by (simp add: failed_create_tables)
  have o1: "stdout ?s1 = [''Error creating tables:'']"
    using assms by (rule stdout_create_tables)
  show ?thesis
  proof (cases "convert_types lib filtered_df")
    case (Inl e)
    with checked o1 show ?thesis
      by (simp add: main_raises)
  next
    case (Inr typed_df)
    obtain l1 where s2: "insert_into_transactions_table env ?s1 typed_df = print l1 ?s1"
      using sinks_after_failure(1) [OF f1] by blast
    have f2: "failed (print l1 ?s1)"
      using f1 by simp
    obtain l2 where s3: "insert_into_customer_table env (print l1 ?s1) typed_df = print l2 (print l1 ?s1)"
      using sinks_after_failure(2) [OF f2] by blast
    have f3: "failed (print l2 (print l1 ?s1))"
      using f1 by simp
    obtain l3 where s4: "insert_into_error_log_table env (print l2 (print l1 ?s1)) failed_df =
        print l3 (print l2 (print l1 ?s1))"
      using sinks_after_failure(3) [OF f3] by blast
    have "main lib env df db =
        \<lparr>raised = None, printed = stdout (print l3 (print l2 (print l1 ?s1))),
         store = commit db (print l3 (print l2 (print l1 ?s1)))\<rparr>"
      using checked Inr by (simp add: main_commits s2 s3 s4)
    moreover have "raised (main lib (env\<lparr>create_refused := False\<rparr>) df db) = None"
      using checked Inr by (simp add: main_commits)
    ultimately show ?thesis
      using f1 o1 by (simp add: commit_def)
  qed
qed

theorem schema_failure_keeps_nothing_witness:
  "create_refused schema_refused \<and>
   store (main plain_library schema_refused (DataFrame [coffee, tea]) coffee_loaded) = coffee_loaded \<and>
   raised (main plain_library schema_refused (DataFrame [coffee, tea]) coffee_loaded) = None"
proof -
  have c: "create_refused schema_refused"
    by (simp add: schema_refused_def)
  have r: "raised (main plain_library (schema_refused\<lparr>create_refused := False\<rparr>)
      (DataFrame [coffee, tea]) coffee_loaded) = None"
    by code_simp
  from schema_failure_keeps_nothing [OF c, of plain_library "DataFrame [coffee, tea]" coffee_loaded] c r
  show ?thesis by simp
qed

lemma sink_failed_after:
  assumes "\<forall>q. \<not> unadaptable env q"
  shows "failed (insert_into_transactions_table env s typed_df) =
           (failed s \<or> (\<exists>q \<in> set (map insert_transaction (itertuples typed_df)). refused env q))"
    and "failed (insert_into_customer_table env s typed_df) =
           (failed s \<or>
            (\<exists>q \<in> set (map insert_customer (map customer_columns (itertuples typed_df))).
               refused env q))"
    and "failed (insert_into_error_log_table env s failed_df) =
           (failed s \<or>
            (\<exists>q \<in> set (map insert_error_log (map error_log_columns (itertuples failed_df))).
               refused env q))"
proof -
  have un: "\<forall>q \<in> set qs. \<not> unadaptable env q" for qs
    using assms by blast
  obtain l1 where "insert_into_transactions_table env s typed_df =
      print l1 (snd (execute_batch env s (map insert_transaction (itertuples typed_df))))"
    using insert_into_transactions_table_session by blast
  then show "failed (insert_into_transactions_table env s typed_df) =
      (failed s \<or> (\<exists>q \<in> set (map insert_transaction (itertuples typed_df)). refused env q))"
    by (simp only: failed_print execute_batch_failed_after [OF un])
  obtain l2 where "insert_into_customer_table env s typed_df =
      print l2 (snd (execute_batch env s
        (map insert_customer (map customer_columns (itertuples typed_df)))))"
    using insert_into_customer_table_session by blast
  then show "failed (insert_into_customer_table env s typed_df) =
      (failed s \<or>
       (\<exists>q \<in> set (map insert_customer (map customer_columns (itertuples typed_df))).
          refused env q))"
    by (simp only: failed_print execute_batch_failed_after [OF un])
  obtain l3 where "insert_into_error_log_table env s failed_df =
      print l3 (snd (execute_batch env s
        (map insert_error_log (map error_log_columns (itertuples failed_df)))))"
    using insert_into_error_log_table_session by blast
  then show "failed (insert_into_error_log_table env s failed_df) =
      (failed s \<or>
       (\<exists>q \<in> set (map insert_error_log (map error_log_columns (itertuples failed_df))).
          refused env q))"
    by (simp only: failed_print execute_batch_failed_after [OF un])
qed

lemma sink_pending:
  assumes "\<forall>q. \<not> unadaptable env q"
  shows "\<not> failed (insert_into_transactions_table env s typed_df) \<Longrightarrow>
           pending (insert_into_transactions_table env s typed_df) =
             foldl run_statement (pending s) (map insert_transaction (itertuples typed_df))"
    and "\<not> failed (insert_into_customer_table env s typed_df) \<Longrightarrow>
           pending (insert_into_customer_table env s typed_df) =
             foldl run_statement (pending s)
               (map insert_customer (map customer_columns (itertuples typed_df)))"
    and "\<not> failed (insert_into_error_log_table env s failed_df) \<Longrightarrow>
           pending (insert_into_error_log_table env s failed_df) =
             foldl run_statement (pending s)
               (map insert_error_log (map error_log_columns (itertuples failed_df)))"
proof -
  have un: "\<forall>q \<in> set qs. \<not> unadaptable env q" for qs
    using assms by blast
  obtain l1 where s1: "insert_into_transactions_table env s typed_df =
      print l1 (snd (execute_batch env s (map insert_transaction (itertuples typed_df))))"
    using insert_into_transactions_table_session by blast
  show "pending (insert_into_transactions_table env s typed_df) =
      foldl run_statement (pending s) (map insert_transaction (itertuples typed_df))"
    if "\<not> failed (insert_into_transactions_table env s typed_df)"
    using un that unfolding s1 failed_print pending_print
    by (rule execute_batch_pending)
  obtain l2 where s2: "insert_into_customer_table env s typed_df =
      print l2 (snd (execute_batch env s
        (map insert_customer (map customer_columns (itertuples typed_df)))))"
    using insert_into_customer_table_session by blast
  show "pending (insert_into_customer_table env s typed_df) =
      foldl run_statement (pending s)
        (map insert_customer (map customer_columns (itertuples typed_df)))"
    if "\<not> failed (insert_into_customer_table env s typed_df)"
    using un that unfolding s2 failed_print pending_print
    by (rule execute_batch_pending)
  obtain l3 where s3: "insert_into_error_log_table env s failed_df =
      print l3 (snd (execute_batch env s
        (map insert_error_log (map error_log_columns (itertuples failed_df)))))"
    using insert_into_error_log_table_session by blast
  show "pending (insert_into_error_log_table env s failed_df) =
      foldl run_statement (pending s)
        (map insert_error_log (map error_log_columns (itertuples failed_df)))"
    if "\<not> failed (insert_into_error_log_table env s failed_df)"
    using un that unfolding s3 failed_print pending_print
    by (rule execute_batch_pending)
qed

text \<open>
  C2. Atomicity of a run: the claim is that when one of the three sink writes fails, the
  tables after the run are those before it. Each sink catches the exception of its
  \<^verbatim>\<open>execute_batch\<close> and prints it, and \<^verbatim>\<open>main\<close> goes on to the next sink and to the commit.
  When the driver cannot build the transaction statements, the write to
  \<open>transactions_table\<close> fails before anything is sent, and the customer row and the error
  log entry of the same run are committed.
\<close>

theorem failed_write_partial_commit:
  "printed (main plain_library transactions_unadaptable (DataFrame [coffee, tea]) empty_tables) =
     [''Tables created successfully!'', ''Error inserting or updating transactions:'',
      ''Customer records inserted or updated successfully!'',
      ''Error log records inserted successfully!''] \<and>
   store (main plain_library transactions_unadaptable (DataFrame [coffee, tea]) empty_tables) =
     \<lparr>transactions_table = [],
      customer_table =
        [\<lparr>c_customerId = 7, c_customerName = ''Ann'', c_transactionDate = (2023, 11, 21, 0)\<rparr>],
      error_log_table =
        [\<lparr>e_customerId = ''00000000-0000-0000-0000-000000000007'',
          e_transactionId = ''00000000-0000-0000-0000-000000000006'',
          e_description = ''tea''\<rparr>]\<rparr> \<and>
   store (main plain_library transactions_unadaptable (DataFrame [coffee, tea]) empty_tables) \<noteq>
     empty_tables"
  by code_simp

text \<open>
  C2, as the code has it: when the driver builds every statement, so that every failure of
  a write is an error raised by the server, the run is all or nothing. If the server
  refuses a statement of any of the three sinks (or a \<^verbatim>\<open>CREATE TABLE\<close>), the committed
  tables after the run are those before it; otherwise every statement of the three sinks
  has been applied, in order.
\<close>

theorem server_failure_all_or_nothing:
  assumes "\<forall>q. \<not> unadaptable env q"
    and "data_quality_checks lib df = Inr (filtered_df, failed_df)"
    and "convert_types lib filtered_df = Inr typed_df"
  shows "store (main lib env df db) =
           (if create_refused env \<or> (\<exists>q \<in> set (sink_statements typed_df failed_df). refused env q)
            then db
            else foldl run_statement db (sink_statements typed_df failed_df))"
proof -
  let ?q1 = "map insert_transaction (itertuples typed_df)"
  let ?q2 = "map insert_customer (map customer_columns (itertuples typed_df))"
  let ?q3 = "map insert_error_log (map error_log_columns (itertuples failed_df))"
  let ?s1 = "create_tables env (cursor db)"
  let ?s2 = "insert_into_transactions_table env ?s1 typed_df"
  let ?s3 = "insert_into_customer_table env ?s2 typed_df"
  let ?s4 = "insert_into_error_log_table env ?s3 failed_df"
  have result: "store (main lib env df db) = commit db ?s4"
    using assms(2,3) by (simp add: main_commits)
  have all: "sink_statements typed_df failed_df = ?q1 @ ?q2 @ ?q3"
    by (simp only: sink_statements_def)
  have f2: "failed ?s2 = (create_refused env \<or> (\<exists>q \<in> set ?q1. refused env q))"
    by (simp only: sink_failed_after(1) [OF assms(1)] failed_create_tables)
  have f3: "failed ?s3 = (failed ?s2 \<or> (\<exists>q \<in> set ?q2. refused env q))"
    by (simp only: sink_failed_after(2) [OF assms(1)])
  have f4: "failed ?s4 = (failed ?s3 \<or> (\<exists>q \<in> set ?q3. refused env q))"
    by (simp only: sink_failed_after(3) [OF assms(1)])
  have f: "failed ?s4 =
      (create_refused env \<or> (\<exists>q \<in> set (sink_statements typed_df failed_df). refused env q))"
    unfolding f4 f3 f2 all by auto
  show ?thesis
  proof (cases "failed ?s4")
    case True
    with f show ?thesis
      by (simp only: result commit_def if_True)
  next
    case False
    with f4 f3 have n3: "\<not> failed ?s3" and n2: "\<not> failed ?s2"
      by blast+
    have "pending ?s4 = foldl run_statement (pending ?s3) ?q3"
      using False by (rule sink_pending(3) [OF assms(1)])
    also have "pending ?s3 = foldl run_statement (pending ?s2) ?q2"
      using n3 by (rule sink_pending(2) [OF assms(1)])
    also have "pending ?s2 = foldl run_statement (pending ?s1) ?q1"
      using n2 by (rule sink_pending(1) [OF assms(1)])
    also have "pending ?s1 = db"
      by (simp add: pending_create_tables cursor_def)
    finally have "pending ?s4 = foldl run_statement db (sink_statements typed_df failed_df)"
      by (simp only: all foldl_append)
    with False f show ?thesis
      by (simp only: result commit_def if_False)
  qed
qed

theorem server_failure_all_or_nothing_witness:
  "(\<forall>q. \<not> unadaptable customer_refused q) \<and>
   data_quality_checks plain_library (DataFrame [coffee, tea]) = Inr ([(0, coffee)], [(1, tea)]) \<and>
   convert_types plain_library [(0, coffee)] = Inr [(0, coffee_row)] \<and>
   refused customer_refused (insert_customer (customer_columns coffee_row)) \<and>
   store (main plain_library customer_refused (DataFrame [coffee, tea]) coffee_loaded) = coffee_loaded"
proof -
  have u: "\<forall>q. \<not> unadaptable customer_refused q"
    by (simp add: customer_refused_def)
  have c: "data_quality_checks plain_library (DataFrame [coffee, tea]) = Inr ([(0, coffee)], [(1, tea)])"
    by code_simp
  have t: "convert_types plain_library [(0, coffee)] = Inr [(0, coffee_row)]"
    by code_simp
  have r: "refused customer_refused (insert_customer (customer_columns coffee_row))"
    by (simp add: customer_refused_def)
  then have "\<exists>q \<in> set (sink_statements [(0, coffee_row)] [(1, tea)]). refused customer_refused q"
    by (simp add: sink_statements_def itertuples_def)
  with server_failure_all_or_nothing [OF u c t, of coffee_loaded]
  have "store (main plain_library customer_refused (DataFrame [coffee, tea]) coffee_loaded) = coffee_loaded"
    by (simp only: if_True simp_thms)
  with u c t r show ?thesis
    by (simp only: simp_thms)
qed

section \<open>The primary keys are kept\<close>

lemma upsert_customer_key:
  assumes "customer_key tbl"
  shows "customer_key (upsert_customer tbl x)"
proof (cases "\<exists>old \<in> set tbl. c_customerId old = c_customerId x")
  case True
  then have "map c_customerId (upsert_customer tbl x) = map c_customerId tbl"
    by (simp add: upsert_customer_def comp_def if_distrib [of c_customerId] cong: if_cong)
  with assms show ?thesis
    by (simp add: customer_key_def)
next
  case False
  then have "upsert_customer tbl x = tbl @ [x]" and "c_customerId x \<notin> set (map c_customerId tbl)"
    by (auto simp: upsert_customer_def)
  with assms show ?thesis
    by (simp add: customer_key_def)
qed

lemma keys_hold_run_statement: "keys_hold db \<Longrightarrow> keys_hold (run_statement db q)"
  by (cases q) (simp_all add: keys_hold_def upsert_transaction_key upsert_customer_key)

lemma keys_hold_execute: "keys_hold (pending s) \<Longrightarrow> keys_hold (pending (snd (execute env s qs)))"
  by (induction qs arbitrary: s) (simp_all add: keys_hold_run_statement)

lemma keys_hold_execute_pages:
  "keys_hold (pending s) \<Longrightarrow> keys_hold (pending (snd (execute_pages env s pages)))"
proof (induction pages arbitrary: s)
  case Nil
  then show ?case by simp
next
  case (Cons page pages)
  obtain e s' where ex: "execute env s page = (e, s')" by (cases "execute env s page")
  with Cons.prems have "keys_hold (pending s')"
    using keys_hold_execute [of s env page] by simp
  with Cons.IH [of s'] Cons.prems ex show ?case
    by (cases e) simp_all
qed

lemma keys_hold_execute_batch:
  "keys_hold (pending s) \<Longrightarrow> keys_hold (pending (snd (execute_batch env s qs)))"
  by (simp add: execute_batch_def keys_hold_execute_pages)

lemma keys_hold_main:
  assumes "keys_hold db"
  shows "keys_hold (store (main lib env df db))"
proof (cases "df = []")
  case True
  with assms show ?thesis
    by (simp add: main_empty)
next
  case False
  then obtain filtered_df failed_df where
    checked: "data_quality_checks lib df = Inr (filtered_df, failed_df)"
    using data_quality_checks_returns by blast
  show ?thesis
  proof (cases "convert_types lib filtered_df")
    case (Inl e)
    with checked assms show ?thesis
      by (simp add: main_raises)
  next
    case (Inr typed_df)
    let ?s1 = "create_tables env (cursor db)"
    let ?s2 = "insert_into_transactions_table env ?s1 typed_df"
    let ?s3 = "insert_into_customer_table env ?s2 typed_df"
    let ?s4 = "insert_into_error_log_table env ?s3 failed_df"
    have "keys_hold (pending ?s1)"
      using assms by (simp add: pending_create_tables cursor_def)
    then have "keys_hold (pending ?s2)"
      using insert_into_transactions_table_session [of env ?s1 typed_df]
      by (auto simp: keys_hold_execute_batch)
    then have "keys_hold (pending ?s3)"
      using insert_into_customer_table_session [of env ?s2 typed_df]
      by (auto simp: keys_hold_execute_batch simp del: map_map)
    then have "keys_hold (pending ?s4)"
      using insert_into_error_log_table_session [of env ?s3 failed_df]
      by (auto simp: keys_hold_execute_batch simp del: map_map)
    with assms checked Inr show ?thesis
      by (simp add: main_commits commit_def)
  qed
qed

text \<open>
  Every sequence of runs that starts from tables in which the two primary keys hold (the
  empty tables, for one) ends in such tables.
\<close>

lemma keys_hold_runs: "keys_hold db \<Longrightarrow> keys_hold (runs lib batches db)"
proof (induction batches rule: rev_induct)
  case Nil
  then show ?case by (simp add: runs_def)
next
  case (snoc b batches)
  obtain env df where "b = (env, df)" by (cases b)
  with snoc show ?case
    by (simp add: runs_snoc keys_hold_main)
qed

lemma keys_hold_empty: "keys_hold empty_tables"
  by (simp add: keys_hold_def transactions_key_def customer_key_def empty_tables_def)

end
